theory Spec2Isabelle
  imports Complex_Main
begin

section \<open>Data model of the virtual list component\<close>

text \<open>
  The component of \<^verbatim>\<open>src/virtual-list/virtual-list.vue\<close> keeps its state in reactive
  references. The references become the fields of one state record that every operation
  takes and returns. Heights, offsets and scroll positions are JavaScript numbers; they are
  modelled as exact reals, the count-valued properties as natural numbers. The payload of a
  list element is opaque to the component and is a type parameter.

  A geometry query of the host is answered later, through a callback. An operation that
  issues one takes the delivered rectangles as an argument and is the guard of the
  operation followed by its callback, both on the same state. The throttling of scroll
  events and the timers are timing only and are left out, except for the pending
  measurement timer, which \<^verbatim>\<open>calculateVirtualList\<close> and the watcher set.
\<close>

datatype position_mode = Absolute | Cumulative

record props =
  virtualListLength :: nat
  itemHeight :: real
  preloadCount :: nat
  dynamicHeight :: bool
  continuousHeight :: bool
  positionMode :: position_mode

text \<open>
  An element of \<^verbatim>\<open>copyList\<close>: the payload with its assigned index. The key \<^verbatim>\<open>id\<close>, taken
  from the payload or synthesized from the index, is never read by the component and
  counts as part of the payload. \<^verbatim>\<open>measuredHeight\<close> is the field that
  \<^verbatim>\<open>updateElementHeight\<close> writes.
\<close>

record 'a citem =
  c_payload :: 'a
  c_index :: nat
  measuredHeight :: "real option"

text \<open>
  An element of \<^verbatim>\<open>virtualList\<close>, the materialized window: the fields of the copied
  element (spread into it) and the three fields the window adds.
\<close>

record 'a vitem =
  payload :: 'a
  index :: nat
  v_measuredHeight :: "real option"
  virtualIndex :: nat
  translateY :: real
  v_itemHeight :: real

text \<open>
  One rectangle of a geometry query result. \<^verbatim>\<open>dataset.index\<close> may be missing, and a
  missing or zero \<^verbatim>\<open>height\<close> is falsy; a missing height is modelled as 0.
\<close>

record rect =
  rect_index :: "nat option"
  rect_height :: real

text \<open>
  \<^verbatim>\<open>itemHeights\<close> is a JavaScript array that an assignment beyond its length extends
  with holes, so its cells are optional. \<^verbatim>\<open>heightUpdateTimeout\<close> holds the pending
  measurement timer together with the \<^verbatim>\<open>isInitial\<close> flag its callback was created with.
\<close>

record 'a vstate =
  virtualList :: "'a vitem list"
  copyList :: "'a citem list"
  totalHeight :: real
  itemHeights :: "real option list"
  averageHeight :: real
  measuredIndices :: "nat set"
  currentIndex :: int
  positionCache :: "nat \<rightharpoonup> real"
  accumulatedHeights :: "real list"
  isScrolling :: bool
  heightUpdateTimeout :: "bool option"

definition initial_state :: "props \<Rightarrow> 'a vstate" where
  "initial_state p =
     \<lparr>virtualList = [], copyList = [], totalHeight = 0, itemHeights = [],
      averageHeight = itemHeight p, measuredIndices = {}, currentIndex = 0,
      positionCache = Map.empty, accumulatedHeights = [], isScrolling = False,
      heightUpdateTimeout = None\<rparr>"

section \<open>JavaScript primitives used by the component\<close>

text \<open>\<^verbatim>\<open>x || d\<close> on a number that may be undefined: undefined and 0 are falsy.\<close>

definition js_or :: "real option \<Rightarrow> real \<Rightarrow> real" where
  "js_or x d = (case x of None \<Rightarrow> d | Some v \<Rightarrow> if v = 0 then d else v)"

text \<open>Reading an array cell; outside the array the result is undefined.\<close>

definition array_get :: "'b list \<Rightarrow> int \<Rightarrow> 'b option" where
  "array_get xs i = (if 0 \<le> i \<and> nat i < length xs then Some (xs ! nat i) else None)"

definition height_at :: "real option list \<Rightarrow> nat \<Rightarrow> real option" where
  "height_at hs i = (if i < length hs then hs ! i else None)"

text \<open>\<^verbatim>\<open>xs[i] = v\<close>: inside the array the cell is replaced, beyond it the array grows.\<close>

definition array_set :: "'b option list \<Rightarrow> nat \<Rightarrow> 'b \<Rightarrow> 'b option list" where
  "array_set xs i v =
     (if i < length xs then xs[i := Some v]
      else xs @ replicate (i - length xs) None @ [Some v])"

text \<open>\<^verbatim>\<open>Array.prototype.slice\<close> with both arguments given as integers.\<close>

definition js_slice :: "'b list \<Rightarrow> int \<Rightarrow> int \<Rightarrow> 'b list" where
  "js_slice xs start fin =
     (let n = int (length xs);
          k = (if start < 0 then max (n + start) 0 else min start n);
          e = (if fin < 0 then max (n + fin) 0 else min fin n)
      in take (nat (e - k)) (drop (nat k) xs))"

text \<open>
  The value of \<^verbatim>\<open>Math.floor(x / d)\<close>: an integer, or one of the three non-finite
  numbers when the divisor is 0.
\<close>

datatype jsnum = Finite int | PosInfinity | NegInfinity | NaN

definition js_floor_div :: "real \<Rightarrow> real \<Rightarrow> jsnum" where
  "js_floor_div x d =
     (if d = 0 then (if x = 0 then NaN else if 0 < x then PosInfinity else NegInfinity)
      else Finite \<lfloor>x / d\<rfloor>)"

text \<open>\<^verbatim>\<open>a <= b\<close> on such numbers; every comparison with NaN is false.\<close>

fun js_le :: "jsnum \<Rightarrow> jsnum \<Rightarrow> bool" where
  "js_le NaN _ = False"
| "js_le _ NaN = False"
| "js_le NegInfinity _ = True"
| "js_le _ PosInfinity = True"
| "js_le (Finite a) (Finite b) = (a \<le> b)"
| "js_le _ _ = False"

section \<open>The height model\<close>

text \<open>
  \<^verbatim>\<open>updateAccumulatedHeights\<close>: one pass over \<^verbatim>\<open>itemHeights\<close> with the running sum,
  pushing the sum after every cell. A falsy cell counts as the average height.
\<close>

fun accumulate :: "real \<Rightarrow> real list \<times> real \<Rightarrow> real option list \<Rightarrow> real list \<times> real" where
  "accumulate avg (heights, running) [] = (heights, running)"
| "accumulate avg (heights, running) (h # hs) =
     accumulate avg (heights @ [running + js_or h avg], running + js_or h avg) hs"

definition updateAccumulatedHeights :: "'a vstate \<Rightarrow> 'a vstate" where
  "updateAccumulatedHeights s =
     (let (heights, running) = accumulate (averageHeight s) ([], 0) (itemHeights s)
      in s\<lparr>accumulatedHeights := heights, totalHeight := running\<rparr>)"

text \<open>
  The loop of \<^verbatim>\<open>getIndexByScrollTop\<close>. A cell outside the array reads as undefined, both
  comparisons with it are false, and the loop returns \<^verbatim>\<open>mid\<close>.
\<close>

function bsearch :: "real list \<Rightarrow> real \<Rightarrow> int \<Rightarrow> int \<Rightarrow> int" where
  "bsearch acc x low high =
     (if low \<le> high then
        (let mid = (low + high) div 2 in
           case array_get acc mid of
             None \<Rightarrow> mid
           | Some a \<Rightarrow>
               if a < x then bsearch acc x (mid + 1) high
               else if x < a then bsearch acc x low (mid - 1)
               else mid)
      else max 0 low)"
  by pat_completeness auto
termination
  by (relation "measure (\<lambda>(acc, x, low, high). nat (high - low + 1))") auto

declare bsearch.simps [simp del]

definition getIndexByScrollTop :: "'a vstate \<Rightarrow> real \<Rightarrow> jsnum" where
  "getIndexByScrollTop s scrollTop =
     (if accumulatedHeights s = [] then js_floor_div scrollTop (averageHeight s)
      else Finite (bsearch (accumulatedHeights s) scrollTop 0
                     (int (length (accumulatedHeights s)) - 1)))"

section \<open>The position assigner\<close>

text \<open>
  \<^verbatim>\<open>updateItemPositionsAbsolute\<close>: every window item in turn; the cache is read and
  written while the loop runs.
\<close>

fun absolute_loop ::
  "real list \<Rightarrow> (nat \<rightharpoonup> real) \<Rightarrow> 'a vitem list \<Rightarrow> 'a vitem list \<times> (nat \<rightharpoonup> real)" where
  "absolute_loop acc pc [] = ([], pc)"
| "absolute_loop acc pc (item # items) =
     (if index item = 0 then
        (let (rest, pc') = absolute_loop acc pc items
         in (item\<lparr>translateY := 0\<rparr> # rest, pc'))
      else case pc (index item) of
        Some c \<Rightarrow>
          (let (rest, pc') = absolute_loop acc pc items
           in (item\<lparr>translateY := c\<rparr> # rest, pc'))
      | None \<Rightarrow>
          (let position = js_or (array_get acc (int (index item) - 1)) 0;
               (rest, pc') = absolute_loop acc (pc(index item \<mapsto> position)) items
           in (item\<lparr>translateY := position\<rparr> # rest, pc')))"

definition updateItemPositionsAbsolute :: "'a vstate \<Rightarrow> 'a vstate" where
  "updateItemPositionsAbsolute s =
     (let (vl, pc) = absolute_loop (accumulatedHeights s) (positionCache s) (virtualList s)
      in s\<lparr>virtualList := vl, positionCache := pc\<rparr>)"

text \<open>
  \<^verbatim>\<open>updateItemPositionsCumulative\<close>: the window items are objects shared between
  \<^verbatim>\<open>virtualList\<close> and its sorted copy, so an item is named by its position in
  \<^verbatim>\<open>virtualList\<close>; the sorted copy is the list of positions in index order (the sort is
  stable). One step handles one item of the sorted copy; the predecessor is looked up in
  the sorted copy and its offset is the one it has at that moment.
\<close>

definition cumulative_step ::
  "real option list \<Rightarrow> real \<Rightarrow> real list \<Rightarrow> nat list \<Rightarrow> nat \<Rightarrow>
   'a vitem list \<times> (nat \<rightharpoonup> real) \<Rightarrow> 'a vitem list \<times> (nat \<rightharpoonup> real)" where
  "cumulative_step hs avg acc sortedList q st =
     (let vl = fst st; pc = snd st; item = vl ! q in
      if index item = 0 then (vl[q := item\<lparr>translateY := 0\<rparr>], pc)
      else case pc (index item) of
        Some c \<Rightarrow> (vl[q := item\<lparr>translateY := c\<rparr>], pc)
      | None \<Rightarrow>
          (let prevIndex = index item - 1;
               y = (case find (\<lambda>r. index (vl ! r) = prevIndex) sortedList of
                      Some r \<Rightarrow> translateY (vl ! r) + js_or (height_at hs prevIndex) avg
                    | None \<Rightarrow> js_or (array_get acc (int prevIndex)) 0)
           in (vl[q := item\<lparr>translateY := y\<rparr>], pc(index item \<mapsto> y))))"

definition updateItemPositionsCumulative :: "'a vstate \<Rightarrow> 'a vstate" where
  "updateItemPositionsCumulative s =
     (let sortedList = sort_key (\<lambda>q. index (virtualList s ! q)) [0..<length (virtualList s)];
          st = fold (cumulative_step (itemHeights s) (averageHeight s) (accumulatedHeights s)
                       sortedList)
                 sortedList (virtualList s, positionCache s)
      in s\<lparr>virtualList := fst st, positionCache := snd st\<rparr>)"

text \<open>
  \<^verbatim>\<open>updateItemPositions\<close> takes the absolute strategy for the mode \<^verbatim>\<open>'absolute'\<close> and the
  cumulative one for anything else.
\<close>

definition updateItemPositions :: "props \<Rightarrow> 'a vstate \<Rightarrow> 'a vstate" where
  "updateItemPositions p s =
     (if positionMode p = Absolute then updateItemPositionsAbsolute s
      else updateItemPositionsCumulative s)"

section \<open>The window calculator\<close>

text \<open>
  \<^verbatim>\<open>scheduleHeightMeasurement\<close>: suppressed while scrolling unless initial; otherwise the
  pending timer is replaced.
\<close>

definition scheduleHeightMeasurement :: "'a vstate \<Rightarrow> bool \<Rightarrow> 'a vstate" where
  "scheduleHeightMeasurement s isInitial =
     (if isScrolling s \<and> \<not> isInitial then s
      else s\<lparr>heightUpdateTimeout := Some isInitial\<rparr>)"

definition materialize :: "'a vstate \<Rightarrow> 'a vitem list \<Rightarrow> nat \<times> 'a citem \<Rightarrow> 'a vitem" where
  "materialize s oldList e =
     (case e of (idx, item) \<Rightarrow>
        \<lparr>payload = c_payload item, index = c_index item,
         v_measuredHeight = measuredHeight item, virtualIndex = idx,
         translateY = (case find (\<lambda>old. index old = c_index item) oldList of
                         Some existing \<Rightarrow> translateY existing
                       | None \<Rightarrow> 0),
         v_itemHeight = js_or (height_at (itemHeights s) (c_index item)) (averageHeight s)\<rparr>)"

definition calculateVirtualList :: "props \<Rightarrow> 'a vstate \<Rightarrow> int \<Rightarrow> int \<Rightarrow> 'a vstate" where
  "calculateVirtualList p s startIndex endIndex =
     (let startIndex' = max 0 startIndex;
          endIndex' = min (int (length (copyList s))) endIndex;
          oldList = virtualList s;
          oldIndices = map index oldList;
          s1 = updateItemPositions p
                 (s\<lparr>virtualList :=
                      map (materialize s oldList)
                        (enumerate 0 (js_slice (copyList s) startIndex' endIndex'))\<rparr>);
          hasNewItems = list_ex (\<lambda>item. index item \<notin> set oldIndices) (virtualList s1)
      in if hasNewItems \<and> dynamicHeight p \<and> \<not> isScrolling s1
         then scheduleHeightMeasurement s1 False else s1)"

text \<open>\<^verbatim>\<open>Math.max(0, Math.min(estimatedIndex, bound))\<close>, NaN staying NaN (no result).\<close>

definition clampEstimated :: "int \<Rightarrow> jsnum \<Rightarrow> int option" where
  "clampEstimated bound est =
     (case est of
        Finite e \<Rightarrow> Some (max 0 (min e bound))
      | PosInfinity \<Rightarrow> Some (max 0 bound)
      | NegInfinity \<Rightarrow> Some 0
      | NaN \<Rightarrow> None)"

text \<open>The estimate of \<^verbatim>\<open>updateVisibleItems\<close> after it has been clamped.\<close>

definition estimatedIndex :: "props \<Rightarrow> 'a vstate \<Rightarrow> real \<Rightarrow> int option" where
  "estimatedIndex p s scrollTop =
     clampEstimated (int (length (copyList s)) - int (virtualListLength p))
       (getIndexByScrollTop s scrollTop)"

text \<open>
  \<^verbatim>\<open>updateVisibleItems\<close>. A comparison with NaN is false, so an estimate that is NaN
  leaves the window alone.
\<close>

definition updateVisibleItems :: "props \<Rightarrow> 'a vstate \<Rightarrow> real \<Rightarrow> 'a vstate" where
  "updateVisibleItems p s scrollTop =
     (if copyList s = [] then s
      else case estimatedIndex p s scrollTop of
        None \<Rightarrow> s
      | Some e \<Rightarrow>
          if \<bar>e - currentIndex s\<bar> > int (preloadCount p div 3) then
            calculateVirtualList p (s\<lparr>currentIndex := e\<rparr>)
              (max 0 (e - int (preloadCount p)))
              (min (int (length (copyList s)))
                 (e + int (virtualListLength p) + int (preloadCount p)))
          else s)"

section \<open>Measurement\<close>

text \<open>
  \<^verbatim>\<open>virtualList.value.find((item) => item.index === i)\<close> followed by the assignment of
  \<^verbatim>\<open>itemHeight\<close>: the first item with that index is changed.
\<close>

fun set_itemHeight :: "nat \<Rightarrow> real \<Rightarrow> 'a vitem list \<Rightarrow> 'a vitem list" where
  "set_itemHeight i h [] = []"
| "set_itemHeight i h (item # items) =
     (if index item = i then item\<lparr>v_itemHeight := h\<rparr> # items
      else item # set_itemHeight i h items)"

fun set_measuredHeight :: "nat \<Rightarrow> real \<Rightarrow> 'a citem list \<Rightarrow> 'a citem list" where
  "set_measuredHeight i h [] = []"
| "set_measuredHeight i h (item # items) =
     (if c_index item = i then item\<lparr>measuredHeight := Some h\<rparr> # items
      else item # set_measuredHeight i h items)"

text \<open>
  What a rectangle contributes to a batch: nothing when \<^verbatim>\<open>dataset.index\<close> is missing or
  the height is falsy, otherwise the index and the height \<^verbatim>\<open>Math.max(1, rect.height)\<close>.
\<close>

definition measurement :: "rect \<Rightarrow> (nat \<times> real) option" where
  "measurement r =
     (case rect_index r of
        None \<Rightarrow> None
      | Some i \<Rightarrow> if rect_height r = 0 then None else Some (i, max 1 (rect_height r)))"

definition measurements :: "rect list \<Rightarrow> (nat \<times> real) list" where
  "measurements rects = List.map_filter measurement rects"

text \<open>
  The body of \<^verbatim>\<open>rects.forEach\<close> in \<^verbatim>\<open>measureInitialSample\<close>: what it does to the state
  for one measurement, and the whole body on the state and the two counters
  \<^verbatim>\<open>measuredCount\<close> and \<^verbatim>\<open>totalHeight\<close>.
\<close>

definition record_sample :: "nat \<times> real \<Rightarrow> 'a vstate \<Rightarrow> 'a vstate" where
  "record_sample m s =
     (case m of (i, height) \<Rightarrow>
        s\<lparr>measuredIndices := insert i (measuredIndices s),
          itemHeights := array_set (itemHeights s) i height,
          virtualList := set_itemHeight i height (virtualList s),
          positionCache := (positionCache s)(i := None)\<rparr>)"

definition sample_rect :: "rect \<Rightarrow> 'a vstate \<times> nat \<times> real \<Rightarrow> 'a vstate \<times> nat \<times> real" where
  "sample_rect r st =
     (case st of (s, measuredCount, tot) \<Rightarrow>
        (case measurement r of
           None \<Rightarrow> st
         | Some m \<Rightarrow> (record_sample m s, measuredCount + 1, tot + snd m)))"

text \<open>The body of the loop that re-estimates the cells not yet measured.\<close>

definition estimate_unmeasured :: "real \<Rightarrow> nat \<Rightarrow> 'a vstate \<Rightarrow> 'a vstate" where
  "estimate_unmeasured newAvgHeight i s =
     (if i \<notin> measuredIndices s then
        s\<lparr>itemHeights := array_set (itemHeights s) i newAvgHeight,
          positionCache := (positionCache s)(i := None),
          virtualList := set_itemHeight i newAvgHeight (virtualList s)\<rparr>
      else s)"

text \<open>
  The height model right after the initial sample has been recorded, before the
  cumulative heights and the offsets are recomputed: \<^verbatim>\<open>newAvgHeight\<close> replaces the
  average, and the unmeasured cells are re-estimated when it is more than a tenth of the
  nominal height away from the nominal height.
\<close>

definition apply_initial_average :: "props \<Rightarrow> 'a vstate \<Rightarrow> real \<Rightarrow> 'a vstate" where
  "apply_initial_average p s newAvgHeight =
     (let s1 = s\<lparr>averageHeight := newAvgHeight\<rparr>
      in if \<bar>newAvgHeight - itemHeight p\<bar> > itemHeight p * (1 / 10)
         then fold (estimate_unmeasured newAvgHeight) [0..<length (itemHeights s1)] s1
         else s1)"

text \<open>
  \<^verbatim>\<open>measureInitialSample\<close> with the rectangles that the geometry query delivers to its
  callback.
\<close>

definition measureInitialSample :: "props \<Rightarrow> 'a vstate \<Rightarrow> rect list \<Rightarrow> 'a vstate" where
  "measureInitialSample p s rects =
     (if \<not> dynamicHeight p \<or> virtualList s = [] then s
      else if rects = [] then s
      else case fold sample_rect rects (s, 0, 0) of
        (s1, measuredCount, tot) \<Rightarrow>
          if measuredCount > 0 then
            updateItemPositions p
              (updateAccumulatedHeights (apply_initial_average p s1 (tot / real measuredCount)))
          else s1)"

text \<open>
  The body of \<^verbatim>\<open>rects.forEach\<close> in \<^verbatim>\<open>measureItemHeights\<close>; the last component is
  \<^verbatim>\<open>heightsChanged\<close>.
\<close>

definition measure_rect ::
  "rect \<Rightarrow> 'a vstate \<times> nat \<times> real \<times> bool \<Rightarrow> 'a vstate \<times> nat \<times> real \<times> bool" where
  "measure_rect r st =
     (case st of (s, measuredCount, tot, heightsChanged) \<Rightarrow>
        (case measurement r of
           None \<Rightarrow> st
         | Some (i, height) \<Rightarrow>
             (let s1 = s\<lparr>measuredIndices := insert i (measuredIndices s)\<rparr>
              in if (case height_at (itemHeights s) i of
                       None \<Rightarrow> True
                     | Some old \<Rightarrow> old = 0 \<or> \<bar>old - height\<bar> > 1)
                 then (s1\<lparr>itemHeights := array_set (itemHeights s) i height,
                           virtualList := set_itemHeight i height (virtualList s),
                           positionCache := (positionCache s)(i := None)\<rparr>,
                       measuredCount + 1, tot + height, True)
                 else (s1, measuredCount + 1, tot + height, heightsChanged))))"

definition measureItemHeights :: "props \<Rightarrow> 'a vstate \<Rightarrow> rect list \<Rightarrow> 'a vstate" where
  "measureItemHeights p s rects =
     (if virtualList s = [] \<or> \<not> dynamicHeight p then s
      else if rects = [] then s
      else case fold measure_rect rects (s, 0, 0, False) of
        (s1, measuredCount, tot, heightsChanged) \<Rightarrow>
          if heightsChanged \<and> measuredCount > 0 then
            (let newAverage = tot / real measuredCount;
                 s2 = (if newAverage > 0
                       then s1\<lparr>averageHeight :=
                                 averageHeight s1 * (7 / 10) + newAverage * (3 / 10)\<rparr>
                       else s1)
             in updateItemPositions p (updateAccumulatedHeights s2))
          else s1)"

definition refreshHeight :: "'a vstate \<Rightarrow> 'a vstate" where
  "refreshHeight s =
     scheduleHeightMeasurement (s\<lparr>measuredIndices := {}, positionCache := Map.empty\<rparr>) True"

section \<open>Targeted update of one element\<close>

text \<open>What a call of \<^verbatim>\<open>updateElementHeight\<close> reports on the console or the event bus.\<close>

datatype report =
    ErrorOutOfRange int
  | WarnNotVisible int
  | WarnNoElements
  | WarnTargetInvalid int
  | Unchanged
  | HeightChanged nat real real

text \<open>The callback of the geometry query of \<^verbatim>\<open>updateElementHeight\<close>.\<close>

definition elementHeightMeasured ::
  "props \<Rightarrow> 'a vstate \<Rightarrow> nat \<Rightarrow> rect list \<Rightarrow> report \<times> 'a vstate" where
  "elementHeightMeasured p s i rects =
     (if rects = [] then (WarnNoElements, s)
      else case find (\<lambda>r. rect_index r = Some i) rects of
        None \<Rightarrow> (WarnTargetInvalid (int i), s)
      | Some targetRect \<Rightarrow>
          if rect_height targetRect = 0 then (WarnTargetInvalid (int i), s)
          else
            (let height = max 1 (rect_height targetRect);
                 oldHeight = js_or (height_at (itemHeights s) i) (averageHeight s)
             in if \<bar>oldHeight - height\<bar> \<le> 1 then (Unchanged, s)
                else
                  (HeightChanged i height oldHeight,
                   updateItemPositions p
                     (updateAccumulatedHeights
                        (s\<lparr>itemHeights := array_set (itemHeights s) i height,
                           virtualList := set_itemHeight i height (virtualList s),
                           copyList := set_measuredHeight i height (copyList s),
                           positionCache :=
                             (\<lambda>j. if i \<le> j \<and> j < length (copyList s) then None
                                  else positionCache s j)\<rparr>)))))"

text \<open>
  \<^verbatim>\<open>updateElementHeight\<close>: the two checks made at once, then the deferred query, whose
  result \<^verbatim>\<open>rects\<close> is an argument here.
\<close>

definition updateElementHeight ::
  "props \<Rightarrow> 'a vstate \<Rightarrow> int \<Rightarrow> rect list \<Rightarrow> report \<times> 'a vstate" where
  "updateElementHeight p s i rects =
     (if i < 0 \<or> i \<ge> int (length (copyList s)) then (ErrorOutOfRange i, s)
      else if find (\<lambda>item. int (index item) = i) (virtualList s) = None
      then (WarnNotVisible i, s)
      else elementHeightMeasured p s (nat i) rects)"

section \<open>Replacement of the source list\<close>

definition initItemHeights :: "props \<Rightarrow> 'a vstate \<Rightarrow> 'a vstate" where
  "initItemHeights p s =
     updateAccumulatedHeights
       (s\<lparr>itemHeights := replicate (length (copyList s)) (Some (itemHeight p)),
          positionCache := Map.empty\<rparr>)"

text \<open>
  The watcher of \<^verbatim>\<open>props.list\<close>; \<^verbatim>\<open>None\<close> is a null or undefined list. The initial
  sample is requested in \<^verbatim>\<open>nextTick\<close>, that is after the rest of the watcher has run.
\<close>

definition clear_list :: "props \<Rightarrow> 'a vstate \<Rightarrow> 'a vstate" where
  "clear_list p s =
     s\<lparr>virtualList := [], copyList := [], totalHeight := 0, measuredIndices := {},
       positionCache := Map.empty, accumulatedHeights := [],
       averageHeight := itemHeight p\<rparr>"

definition populate_list :: "props \<Rightarrow> 'a list \<Rightarrow> 'a vstate \<Rightarrow> 'a vstate" where
  "populate_list p xs s =
     (let s1 = s\<lparr>copyList :=
                   map (\<lambda>(i, item). \<lparr>c_payload = item, c_index = i, measuredHeight = None\<rparr>)
                     (enumerate 0 xs)\<rparr>;
          s2 = s1\<lparr>measuredIndices := {}, positionCache := Map.empty,
                  averageHeight := itemHeight p\<rparr>;
          s3 = initItemHeights p s2;
          s4 = calculateVirtualList p s3 0
                 (min (int (length xs)) (int (virtualListLength p) + int (preloadCount p)))
      in scheduleHeightMeasurement s4 True)"

definition watch_list :: "props \<Rightarrow> 'a list option \<Rightarrow> 'a vstate \<Rightarrow> 'a vstate" where
  "watch_list p newVal s =
     (case newVal of
        None \<Rightarrow> clear_list p s
      | Some xs \<Rightarrow> if xs = [] then clear_list p s else populate_list p xs s)"

section \<open>The mean of a batch\<close>

text \<open>The arithmetic mean of the heights a batch contributes.\<close>

definition batch_mean :: "rect list \<Rightarrow> real" where
  "batch_mean rects =
     sum_list (map snd (measurements rects)) / real (length (measurements rects))"

section \<open>The offset both strategies aim at\<close>

text \<open>
  The offset that \<^verbatim>\<open>updateItemPositionsAbsolute\<close> computes for an index on a cache miss, and
  the item stamped with it.
\<close>

definition absolute_offset :: "real list \<Rightarrow> nat \<Rightarrow> real" where
  "absolute_offset acc j = (if j = 0 then 0 else js_or (array_get acc (int j - 1)) 0)"

definition stamp :: "real list \<Rightarrow> 'a vitem \<Rightarrow> 'a vitem" where
  "stamp acc item = item\<lparr>translateY := absolute_offset acc (index item)\<rparr>"

section \<open>Consistency of a state\<close>

text \<open>
  What the watcher establishes and every operation keeps: the elements of \<^verbatim>\<open>copyList\<close>
  carry their positions as indices, and the height table and the cumulative heights have
  a cell for every element.
\<close>

definition consistent :: "'a vstate \<Rightarrow> bool" where
  "consistent s \<longleftrightarrow>
     map c_index (copyList s) = [0..<length (copyList s)] \<and>
     length (copyList s) \<le> length (itemHeights s) \<and>
     length (copyList s) \<le> length (accumulatedHeights s)"

section \<open>Concrete configurations\<close>

text \<open>
  A small configuration and the state of the component after a list of ten elements has
  been assigned to it; the theorems below are instantiated at them.
\<close>

definition small_props :: props where
  "small_props =
     \<lparr>virtualListLength = 2, itemHeight = 100, preloadCount = 3, dynamicHeight = True,
      continuousHeight = True, positionMode = Cumulative\<rparr>"

definition ten_items :: "unit vstate" where
  "ten_items = watch_list small_props (Some (replicate 10 ())) (initial_state small_props)"

text \<open>
  A configuration with nominal height 0: two elements are assigned, then a continuous
  measurement reports height 5 for index 1. And a configuration with a negative nominal
  height, right after two elements have been assigned.
\<close>

definition zero_height_state :: "unit vstate" where
  "zero_height_state =
     measureItemHeights (small_props\<lparr>itemHeight := 0\<rparr>)
       (watch_list (small_props\<lparr>itemHeight := 0\<rparr>) (Some [(), ()])
          (initial_state (small_props\<lparr>itemHeight := 0\<rparr>)))
       [\<lparr>rect_index = Some 1, rect_height = 5\<rparr>]"

definition negative_height_state :: "unit vstate" where
  "negative_height_state =
     watch_list (small_props\<lparr>itemHeight := - 10\<rparr>) (Some [(), ()])
       (initial_state (small_props\<lparr>itemHeight := - 10\<rparr>))"

text \<open>
  Three elements assigned under nominal height 0, and the state of a freshly created
  component (no list yet) for a given nominal height.
\<close>

definition flat_state :: "unit vstate" where
  "flat_state =
     watch_list (small_props\<lparr>itemHeight := 0\<rparr>) (Some [(), (), ()])
       (initial_state (small_props\<lparr>itemHeight := 0\<rparr>))"

definition empty_state :: "real \<Rightarrow> unit vstate" where
  "empty_state h = initial_state (small_props\<lparr>itemHeight := h\<rparr>)"

text \<open>
  The default configuration of the component, and the state after a list of a thousand
  elements has been assigned under it.
\<close>

definition default_props :: props where
  "default_props =
     \<lparr>virtualListLength = 20, itemHeight = 100, preloadCount = 10, dynamicHeight = True,
      continuousHeight = True, positionMode = Cumulative\<rparr>"

definition thousand_items :: "unit vstate" where
  "thousand_items =
     watch_list default_props (Some (replicate 1000 ())) (initial_state default_props)"

text \<open>
  The ten elements after a continuous measurement has reported heights 150 and 80 for the
  indices 1 and 2 and the list has been scrolled to offset 460, with the position cache
  emptied.
\<close>

definition measured_window :: "unit vstate" where
  "measured_window =
     (updateVisibleItems small_props
        (measureItemHeights small_props ten_items
           [\<lparr>rect_index = Some 1, rect_height = 150\<rparr>, \<lparr>rect_index = Some 2, rect_height = 80\<rparr>])
        460)\<lparr>positionCache := Map.empty\<rparr>"

text \<open>A query result in which the element of index 1 has grown to height 150.\<close>

definition taller_second :: "rect list" where
  "taller_second = [\<lparr>rect_index = Some 1, rect_height = 150\<rparr>]"





section \<open>Frame properties\<close>

lemma updateAccumulatedHeights_frame [simp]:
  "virtualList (updateAccumulatedHeights s) = virtualList s"
  "copyList (updateAccumulatedHeights s) = copyList s"
  "itemHeights (updateAccumulatedHeights s) = itemHeights s"
  "averageHeight (updateAccumulatedHeights s) = averageHeight s"
  "measuredIndices (updateAccumulatedHeights s) = measuredIndices s"
  "currentIndex (updateAccumulatedHeights s) = currentIndex s"
  "positionCache (updateAccumulatedHeights s) = positionCache s"
  "isScrolling (updateAccumulatedHeights s) = isScrolling s"
  "heightUpdateTimeout (updateAccumulatedHeights s) = heightUpdateTimeout s"
  by (simp_all add: updateAccumulatedHeights_def split: prod.splits)

lemma updateItemPositions_frame [simp]:
  "copyList (updateItemPositions p s) = copyList s"
  "totalHeight (updateItemPositions p s) = totalHeight s"
  "itemHeights (updateItemPositions p s) = itemHeights s"
  "averageHeight (updateItemPositions p s) = averageHeight s"
  "measuredIndices (updateItemPositions p s) = measuredIndices s"
  "currentIndex (updateItemPositions p s) = currentIndex s"
  "accumulatedHeights (updateItemPositions p s) = accumulatedHeights s"
  "isScrolling (updateItemPositions p s) = isScrolling s"
  "heightUpdateTimeout (updateItemPositions p s) = heightUpdateTimeout s"
  by (simp_all add: updateItemPositions_def updateItemPositionsAbsolute_def
        updateItemPositionsCumulative_def Let_def split: prod.splits)

lemma scheduleHeightMeasurement_frame [simp]:
  "virtualList (scheduleHeightMeasurement s b) = virtualList s"
  "copyList (scheduleHeightMeasurement s b) = copyList s"
  "totalHeight (scheduleHeightMeasurement s b) = totalHeight s"
  "itemHeights (scheduleHeightMeasurement s b) = itemHeights s"
  "averageHeight (scheduleHeightMeasurement s b) = averageHeight s"
  "measuredIndices (scheduleHeightMeasurement s b) = measuredIndices s"
  "currentIndex (scheduleHeightMeasurement s b) = currentIndex s"
  "positionCache (scheduleHeightMeasurement s b) = positionCache s"
  "accumulatedHeights (scheduleHeightMeasurement s b) = accumulatedHeights s"
  "isScrolling (scheduleHeightMeasurement s b) = isScrolling s"
  by (simp_all add: scheduleHeightMeasurement_def)

lemma calculateVirtualList_frame [simp]:
  "copyList (calculateVirtualList p s a b) = copyList s"
  "totalHeight (calculateVirtualList p s a b) = totalHeight s"
  "itemHeights (calculateVirtualList p s a b) = itemHeights s"
  "averageHeight (calculateVirtualList p s a b) = averageHeight s"
  "measuredIndices (calculateVirtualList p s a b) = measuredIndices s"
  "currentIndex (calculateVirtualList p s a b) = currentIndex s"
  "accumulatedHeights (calculateVirtualList p s a b) = accumulatedHeights s"
  "isScrolling (calculateVirtualList p s a b) = isScrolling s"
  by (simp_all add: calculateVirtualList_def Let_def)

lemma accumulate_keeps:
  "i < length heights \<Longrightarrow> fst (accumulate avg (heights, r) hs) ! i = heights ! i"
  by (induction hs arbitrary: heights r) (simp_all add: nth_append)

lemma accumulate_length:
  "length (fst (accumulate avg (heights, r) hs)) = length heights + length hs"
  by (induction hs arbitrary: heights r) simp_all

lemma accumulate_total:
  "snd (accumulate avg (heights, r) hs) = r + sum_list (map (\<lambda>h. js_or h avg) hs)"
  by (induction hs arbitrary: heights r) simp_all

lemma accumulate_nth:
  "i < length hs \<Longrightarrow>
   fst (accumulate avg (heights, r) hs) ! (length heights + i) =
   r + sum_list (map (\<lambda>h. js_or h avg) (take (Suc i) hs))"
proof (induction hs arbitrary: heights r i)
  case Nil
  then show ?case by simp
next
  case (Cons h hs)
  show ?case
  proof (cases i)
    case 0
    then show ?thesis by (simp add: accumulate_keeps)
  next
    case (Suc j)
    with Cons.prems have j: "j < length hs" by simp
    have "fst (accumulate avg (heights @ [r + js_or h avg], r + js_or h avg) hs)
            ! (length (heights @ [r + js_or h avg]) + j)
          = (r + js_or h avg) + sum_list (map (\<lambda>h. js_or h avg) (take (Suc j) hs))"
      by (rule Cons.IH [OF j])
    with Suc show ?thesis by (simp add: add.assoc)
  qed
qed

section \<open>Replacing the source list (C8)\<close>

text \<open>
  Claim C8. Replacing the source list with an empty list (or with a missing one) clears the
  materialized window, the copied list, the total height, the set of measured indices,
  the position cache and the cumulative heights, and resets the average height to the
  configured nominal height. Replacing it with a non-empty list resets the average height
  to the nominal height as well; the set of measured indices is empty and the initial
  sample is only scheduled, so no measurement result has been applied yet.
\<close>

theorem watch_list_clears_and_resets:
  "virtualList (watch_list p (Some []) s) = [] \<and>
   copyList (watch_list p (Some []) s) = [] \<and>
   totalHeight (watch_list p (Some []) s) = 0 \<and>
   measuredIndices (watch_list p (Some []) s) = {} \<and>
   positionCache (watch_list p (Some []) s) = Map.empty \<and>
   accumulatedHeights (watch_list p (Some []) s) = [] \<and>
   averageHeight (watch_list p (Some []) s) = itemHeight p \<and>
   watch_list p None s = watch_list p (Some []) s \<and>
   averageHeight (watch_list p (Some (x # xs)) s) = itemHeight p \<and>
   measuredIndices (watch_list p (Some (x # xs)) s) = {} \<and>
   heightUpdateTimeout (watch_list p (Some (x # xs)) s) = Some True"
  by (simp add: watch_list_def clear_list_def populate_list_def initItemHeights_def
        scheduleHeightMeasurement_def Let_def)

section \<open>Rejected targeted updates (C9)\<close>

text \<open>
  Claim C9. \<^verbatim>\<open>updateElementHeight\<close> for an index outside \<open>[0, N)\<close> reports the index as out of
  range and leaves the state as it is; for an index in range that no item of the
  materialized window carries it reports the element as not visible and leaves the state
  as it is, whatever the geometry query would have delivered.
\<close>

theorem updateElementHeight_not_applicable:
  "(i < 0 \<or> int (length (copyList s)) \<le> i \<longrightarrow>
      updateElementHeight p s i rects = (ErrorOutOfRange i, s)) \<and>
   (0 \<le> i \<and> i < int (length (copyList s)) \<and> i \<notin> int ` index ` set (virtualList s) \<longrightarrow>
      updateElementHeight p s i rects = (WarnNotVisible i, s))"
proof -
  have "find (\<lambda>item. int (index item) = i) (virtualList s) = None"
    if "i \<notin> int ` index ` set (virtualList s)"
    using that by (auto simp: find_None_iff)
  then show ?thesis
    by (auto simp: updateElementHeight_def)
qed

theorem updateElementHeight_not_applicable_witness:
  "updateElementHeight small_props ten_items 10 [\<lparr>rect_index = Some 5, rect_height = 80\<rparr>]
     = (ErrorOutOfRange 10, ten_items) \<and>
   updateElementHeight small_props ten_items (- 1) [\<lparr>rect_index = Some 5, rect_height = 80\<rparr>]
     = (ErrorOutOfRange (- 1), ten_items) \<and>
   map index (virtualList ten_items) = [0, 1, 2, 3, 4] \<and>
   updateElementHeight small_props ten_items 5 [\<lparr>rect_index = Some 5, rect_height = 80\<rparr>]
     = (WarnNotVisible 5, ten_items)"
proof -
  have len: "length (copyList ten_items) = 10"
    by code_simp
  have win: "map index (virtualList ten_items) = [0, 1, 2, 3, 4]"
    by code_simp
  have "set (map index (virtualList ten_items)) = {0, 1, 2, 3, 4}"
    unfolding win by simp
  then have out: "(5::int) \<notin> int ` index ` set (virtualList ten_items)"
    by simp
  show ?thesis
    using updateElementHeight_not_applicable [of 10 ten_items small_props]
      updateElementHeight_not_applicable [of "- 1" ten_items small_props]
      updateElementHeight_not_applicable [of 5 ten_items small_props]
      len win out
    by simp
qed

section \<open>The cumulative heights after a rebuild (C5)\<close>

lemma rebuilt_accumulated:
  "accumulatedHeights (updateAccumulatedHeights s) =
     fst (accumulate (averageHeight s) ([], 0) (itemHeights s))"
  "totalHeight (updateAccumulatedHeights s) =
     snd (accumulate (averageHeight s) ([], 0) (itemHeights s))"
  by (simp_all add: updateAccumulatedHeights_def split: prod.splits)

lemma rebuilt_length [simp]:
  "length (accumulatedHeights (updateAccumulatedHeights s)) = length (itemHeights s)"
  by (simp add: rebuilt_accumulated accumulate_length)

lemma rebuilt_nth:
  "i < length (itemHeights s) \<Longrightarrow>
   accumulatedHeights (updateAccumulatedHeights s) ! i =
     (\<Sum>h\<leftarrow>take (Suc i) (itemHeights s). js_or h (averageHeight s))"
  using accumulate_nth [of i "itemHeights s" "averageHeight s" "[]" 0]
  by (simp add: rebuilt_accumulated)

lemma rebuilt_total:
  "totalHeight (updateAccumulatedHeights s) =
     (\<Sum>h\<leftarrow>itemHeights s. js_or h (averageHeight s))"
  by (simp add: rebuilt_accumulated accumulate_total)

lemma rebuilt_nth_Suc:
  assumes "Suc i < length (itemHeights s)"
  shows "accumulatedHeights (updateAccumulatedHeights s) ! Suc i =
           accumulatedHeights (updateAccumulatedHeights s) ! i
           + js_or (itemHeights s ! Suc i) (averageHeight s)"
proof -
  have "take (Suc (Suc i)) (itemHeights s) = take (Suc i) (itemHeights s) @ [itemHeights s ! Suc i]"
    using assms by (rule take_Suc_conv_app_nth)
  then show ?thesis
    using assms by (simp add: rebuilt_nth)
qed

lemma rebuilt_last:
  assumes "itemHeights s \<noteq> []"
  shows "last (accumulatedHeights (updateAccumulatedHeights s)) =
           totalHeight (updateAccumulatedHeights s)"
proof -
  let ?acc = "accumulatedHeights (updateAccumulatedHeights s)"
  have ne: "?acc \<noteq> []"
    using assms by (metis length_0_conv rebuilt_length)
  have "last ?acc = ?acc ! (length (itemHeights s) - 1)"
    using ne by (simp add: last_conv_nth)
  also have "\<dots> = (\<Sum>h\<leftarrow>take (Suc (length (itemHeights s) - 1)) (itemHeights s).
                      js_or h (averageHeight s))"
    using assms by (intro rebuilt_nth) simp
  also have "\<dots> = totalHeight (updateAccumulatedHeights s)"
    using assms by (simp add: rebuilt_total)
  finally show ?thesis .
qed

lemma rebuilt_sorted:
  assumes "\<forall>h\<in>set (itemHeights s). 0 \<le> js_or h (averageHeight s)"
  shows "sorted (accumulatedHeights (updateAccumulatedHeights s))"
  unfolding sorted_iff_nth_Suc
proof (intro allI impI)
  fix i
  assume "Suc i < length (accumulatedHeights (updateAccumulatedHeights s))"
  then have i: "Suc i < length (itemHeights s)" by simp
  then have "0 \<le> js_or (itemHeights s ! Suc i) (averageHeight s)"
    using assms by simp
  then show "accumulatedHeights (updateAccumulatedHeights s) ! i
               \<le> accumulatedHeights (updateAccumulatedHeights s) ! Suc i"
    by (simp add: rebuilt_nth_Suc [OF i])
qed

lemma rebuilt_strictly_sorted:
  assumes "\<forall>h\<in>set (itemHeights s). 0 < js_or h (averageHeight s)"
  shows "sorted_wrt (<) (accumulatedHeights (updateAccumulatedHeights s))"
proof -
  have "transp ((<) :: real \<Rightarrow> real \<Rightarrow> bool)" by (rule transp_on_less)
  moreover have "\<forall>i. Suc i < length (accumulatedHeights (updateAccumulatedHeights s)) \<longrightarrow>
      accumulatedHeights (updateAccumulatedHeights s) ! i
        < accumulatedHeights (updateAccumulatedHeights s) ! Suc i"
  proof (intro allI impI)
    fix i
    assume "Suc i < length (accumulatedHeights (updateAccumulatedHeights s))"
    then have i: "Suc i < length (itemHeights s)" by simp
    then have "0 < js_or (itemHeights s ! Suc i) (averageHeight s)"
      using assms by simp
    then show "accumulatedHeights (updateAccumulatedHeights s) ! i
                 < accumulatedHeights (updateAccumulatedHeights s) ! Suc i"
      by (simp add: rebuilt_nth_Suc [OF i])
  qed
  ultimately show ?thesis
    by (simp add: sorted_wrt_iff_nth_Suc_transp)
qed

lemma js_or_stored: "x \<noteq> 0 \<Longrightarrow> js_or (Some x) d = x"
  by (simp add: js_or_def)

lemma effective_stored:
  "\<forall>x\<in>set xs. x \<noteq> 0 \<Longrightarrow> map (\<lambda>h. js_or h d) (map Some xs) = xs"
  by (induction xs) (simp_all add: js_or_def)

text \<open>
  Claim C5, as amended. After every rebuild of the cumulative heights,
  \<^verbatim>\<open>accumulatedHeights\<close> has the length of \<^verbatim>\<open>itemHeights\<close>, its cell \<open>i\<close> is the sum over
  \<open>j \<le> i\<close> of the effective heights, where the effective height of a cell is the stored
  height or, when the cell is missing or 0, the average height, and \<^verbatim>\<open>totalHeight\<close> is
  the last cumulative height (0 for an empty table). The cumulative heights are
  non-decreasing whenever every effective height is non-negative, and cell \<open>i\<close> equals the
  plain sum of the stored heights up to \<open>i\<close> whenever every cell is present and non-zero.
\<close>

theorem updateAccumulatedHeights_prefix_sums:
  "length (accumulatedHeights (updateAccumulatedHeights s)) = length (itemHeights s) \<and>
   (\<forall>i<length (itemHeights s).
      accumulatedHeights (updateAccumulatedHeights s) ! i =
        (\<Sum>h\<leftarrow>take (Suc i) (itemHeights s). js_or h (averageHeight s))) \<and>
   totalHeight (updateAccumulatedHeights s) =
     (if itemHeights s = [] then 0 else last (accumulatedHeights (updateAccumulatedHeights s))) \<and>
   ((\<forall>h\<in>set (itemHeights s). 0 \<le> js_or h (averageHeight s)) \<longrightarrow>
      sorted (accumulatedHeights (updateAccumulatedHeights s))) \<and>
   (itemHeights s = map Some xs \<and> (\<forall>x\<in>set xs. x \<noteq> 0) \<longrightarrow>
      (\<forall>i<length xs.
         accumulatedHeights (updateAccumulatedHeights s) ! i = sum_list (take (Suc i) xs)))"
proof (intro conjI impI allI)
  show "length (accumulatedHeights (updateAccumulatedHeights s)) = length (itemHeights s)"
    by simp
next
  fix i assume "i < length (itemHeights s)"
  then show "accumulatedHeights (updateAccumulatedHeights s) ! i =
        (\<Sum>h\<leftarrow>take (Suc i) (itemHeights s). js_or h (averageHeight s))"
    by (rule rebuilt_nth)
next
  show "totalHeight (updateAccumulatedHeights s) =
     (if itemHeights s = [] then 0 else last (accumulatedHeights (updateAccumulatedHeights s)))"
    by (simp add: rebuilt_last) (simp add: rebuilt_total)
next
  assume "\<forall>h\<in>set (itemHeights s). 0 \<le> js_or h (averageHeight s)"
  then show "sorted (accumulatedHeights (updateAccumulatedHeights s))"
    by (rule rebuilt_sorted)
next
  fix i
  assume h: "itemHeights s = map Some xs \<and> (\<forall>x\<in>set xs. x \<noteq> 0)" and i: "i < length xs"
  have nz: "\<forall>x\<in>set (take (Suc i) xs). x \<noteq> 0"
    using h by (meson in_set_takeD)
  have "accumulatedHeights (updateAccumulatedHeights s) ! i =
          (\<Sum>h\<leftarrow>take (Suc i) (map Some xs). js_or h (averageHeight s))"
    using h i by (simp add: rebuilt_nth)
  also have "\<dots> = sum_list (map (\<lambda>h. js_or h (averageHeight s)) (map Some (take (Suc i) xs)))"
    by (simp only: take_map)
  also have "\<dots> = sum_list (take (Suc i) xs)"
    by (simp only: effective_stored [OF nz])
  finally show "accumulatedHeights (updateAccumulatedHeights s) ! i = sum_list (take (Suc i) xs)" .
qed

theorem updateAccumulatedHeights_prefix_sums_witness:
  "itemHeights ten_items = map Some (replicate 10 100) \<and>
   sorted (accumulatedHeights (updateAccumulatedHeights ten_items)) \<and>
   accumulatedHeights (updateAccumulatedHeights ten_items) ! 3 = 400 \<and>
   totalHeight (updateAccumulatedHeights ten_items) =
     last (accumulatedHeights (updateAccumulatedHeights ten_items))"
proof -
  have stored: "itemHeights ten_items = map Some (replicate 10 100)"
    by code_simp
  have nonzero: "\<forall>x\<in>set (replicate 10 (100::real)). x \<noteq> 0"
    by simp
  have nonneg: "\<forall>h\<in>set (itemHeights ten_items). 0 \<le> js_or h (averageHeight ten_items)"
    unfolding stored by (simp add: js_or_def)
  have ne: "itemHeights ten_items \<noteq> []"
    unfolding stored by simp
  note main = updateAccumulatedHeights_prefix_sums [of ten_items "replicate 10 100"]
  have third: "(3::nat) < length (replicate 10 (100::real))"
    by simp
  have sums: "\<forall>i<length (replicate 10 (100::real)).
          accumulatedHeights (updateAccumulatedHeights ten_items) ! i =
            sum_list (take (Suc i) (replicate 10 100))"
    using main stored nonzero by blast
  have "accumulatedHeights (updateAccumulatedHeights ten_items) ! 3 =
               sum_list (take (Suc 3) (replicate 10 100))"
    using sums [rule_format, OF third] .
  also have "\<dots> = 400"
    by code_simp
  finally have "accumulatedHeights (updateAccumulatedHeights ten_items) ! 3 = 400" .
  moreover have "sorted (accumulatedHeights (updateAccumulatedHeights ten_items))"
    using main nonneg by blast
  moreover have "totalHeight (updateAccumulatedHeights ten_items) =
                   last (accumulatedHeights (updateAccumulatedHeights ten_items))"
    using main ne by simp
  ultimately show ?thesis
    using stored by simp
qed

text \<open>
  The claim as stated fails where a stored height is 0 while the average is not: with
  nominal height 0 the table is \<open>[0, 5]\<close> after index 1 has been measured, the average is
  \<open>3/2\<close>, and the first cumulative height is \<open>3/2\<close>, not 0. With a negative nominal height
  the cumulative heights decrease.
\<close>

theorem cumulative_heights_counterexample:
  "itemHeights zero_height_state = [Some 0, Some 5] \<and>
   averageHeight zero_height_state = 3 / 2 \<and>
   accumulatedHeights (updateAccumulatedHeights zero_height_state) = [3 / 2, 13 / 2] \<and>
   accumulatedHeights (updateAccumulatedHeights zero_height_state) ! 0
     \<noteq> sum_list (take (Suc 0) [0, 5]) \<and>
   \<not> sorted (accumulatedHeights (updateAccumulatedHeights negative_height_state))"
  by code_simp

section \<open>The indices of the materialized window\<close>

lemma absolute_loop_index:
  "map index (fst (absolute_loop acc pc items)) = map index items"
  by (induction items arbitrary: pc)
     (simp_all add: Let_def case_prod_beta split: option.splits)

lemma map_index_update:
  "map index (vl[q := (vl ! q)\<lparr>translateY := y\<rparr>]) = map index vl"
  by (cases "q < length vl") (simp_all add: map_update list_update_same_conv list_update_beyond)

lemma cumulative_step_index:
  "map index (fst (cumulative_step hs avg acc sl q st)) = map index (fst st)"
  by (simp add: cumulative_step_def Let_def map_index_update split: option.splits)

lemma cumulative_fold_index:
  "map index (fst (fold (cumulative_step hs avg acc sl) qs st)) = map index (fst st)"
  by (induction qs arbitrary: st) (simp_all add: cumulative_step_index)

lemma updateItemPositions_index [simp]:
  "map index (virtualList (updateItemPositions p s)) = map index (virtualList s)"
  by (simp add: updateItemPositions_def updateItemPositionsAbsolute_def
        updateItemPositionsCumulative_def Let_def absolute_loop_index cumulative_fold_index
        case_prod_beta)

lemma materialize_index: "index (materialize s old e) = c_index (snd e)"
  by (simp add: materialize_def split: prod.splits)

lemma calculateVirtualList_index:
  "map index (virtualList (calculateVirtualList p s a b)) =
     map c_index (js_slice (copyList s) (max 0 a) (min (int (length (copyList s))) b))"
proof -
  have "map c_index (map snd (enumerate 0 xs)) = map (\<lambda>e. c_index (snd e)) (enumerate 0 xs)"
    for xs :: "'a citem list"
    by (simp only: map_map comp_def)
  then have "map (\<lambda>e. index (materialize s old e)) (enumerate 0 xs) = map c_index xs"
    for old and xs :: "'a citem list"
    by (simp add: materialize_index)
  then show ?thesis
    by (simp add: calculateVirtualList_def Let_def comp_def)
qed

lemma js_slice_map: "map f (js_slice xs a b) = js_slice (map f xs) a b"
  by (simp add: js_slice_def Let_def take_map drop_map)

lemma js_slice_upt:
  assumes "0 \<le> a" "0 \<le> b" "b \<le> int n"
  shows "js_slice [0..<n] a b = [nat a..<nat b]"
proof (cases "a \<le> b")
  case True
  with assms have "take (nat (b - a)) (drop (nat a) [0..<n]) = [nat a..<nat b]"
    by (simp add: drop_upt take_upt nat_diff_distrib nat_le_iff)
  with assms True show ?thesis
    by (simp add: js_slice_def Let_def min_def)
next
  case False
  with assms show ?thesis
    by (simp add: js_slice_def Let_def min_def)
qed

lemma calculateVirtualList_range:
  assumes "consistent s" "0 \<le> a" "0 \<le> b" "b \<le> int (length (copyList s))"
  shows "map index (virtualList (calculateVirtualList p s a b)) = [nat a..<nat b]"
  using assms
  by (simp add: calculateVirtualList_index js_slice_map consistent_def js_slice_upt
        max_def min_def)

lemma js_slice_upt_range: "\<exists>lo hi. js_slice [0..<n] a b = [lo..<hi] \<and> hi \<le> n"
proof -
  define k where "k = nat (if a < 0 then max (int n + a) 0 else min a (int n))"
  define e where "e = nat (if b < 0 then max (int n + b) 0 else min b (int n))"
  have k: "k \<le> n" and e: "e \<le> n"
    unfolding k_def e_def by (auto simp: max_def min_def)
  have "js_slice [0..<n] a b = take (e - k) (drop k [0..<n])"
    unfolding js_slice_def Let_def k_def e_def
    by (auto simp: max_def min_def nat_diff_distrib')
  also have "\<dots> = take (e - k) [k..<n]"
    by (simp add: drop_upt)
  also have "\<dots> = [k..<max k e]"
  proof (cases "k \<le> e")
    case True
    with e have "k + (e - k) \<le> n" by simp
    then have "take (e - k) [k..<n] = [k..<k + (e - k)]" by (rule take_upt)
    with True show ?thesis by (simp add: max_def)
  next
    case False
    then show ?thesis by (simp add: max_def)
  qed
  finally have "js_slice [0..<n] a b = [k..<max k e]" .
  moreover have "max k e \<le> n" using k e by simp
  ultimately show ?thesis by blast
qed

lemma calculateVirtualList_contiguous:
  assumes "consistent s"
  shows "\<exists>lo hi. map index (virtualList (calculateVirtualList p s a b)) = [lo..<hi] \<and>
                 hi \<le> length (copyList s)"
  using assms js_slice_upt_range [of "length (copyList s)"]
  by (simp add: calculateVirtualList_index js_slice_map consistent_def)

section \<open>The binary search of \<^verbatim>\<open>getIndexByScrollTop\<close>\<close>

lemma bsearch_bounds:
  "0 \<le> low \<Longrightarrow> low \<le> high + 1 \<Longrightarrow>
   low \<le> bsearch acc x low high \<and> bsearch acc x low high \<le> high + 1"
proof (induction acc x low high rule: bsearch.induct)
  case (1 acc x low high)
  let ?mid = "(low + high) div 2"
  show ?case
  proof (cases "low \<le> high")
    case False
    with "1.prems" show ?thesis
      by (simp add: bsearch.simps [of acc x low high])
  next
    case True
    then have mid: "low \<le> ?mid" "?mid \<le> high"
      by simp_all
    show ?thesis
    proof (cases "array_get acc ?mid")
      case None
      with True mid show ?thesis
        by (simp add: bsearch.simps [of acc x low high])
    next
      case (Some a)
      consider (less) "a < x" | (greater) "x < a" | (equal) "a = x"
        by linarith
      then show ?thesis
      proof cases
        case less
        have "?mid + 1 \<le> bsearch acc x (?mid + 1) high \<and>
              bsearch acc x (?mid + 1) high \<le> high + 1"
          using "1.IH"(1) [OF True refl Some less] "1.prems" mid by simp
        with True Some less mid show ?thesis
          by (simp add: bsearch.simps [of acc x low high])
      next
        case greater
        then have ng: "\<not> a < x" by simp
        have "low \<le> bsearch acc x low (?mid - 1) \<and>
              bsearch acc x low (?mid - 1) \<le> ?mid - 1 + 1"
          using "1.IH"(2) [OF True refl Some ng greater] "1.prems" mid by simp
        with True Some greater ng mid show ?thesis
          by (simp add: bsearch.simps [of acc x low high])
      next
        case equal
        with True Some mid show ?thesis
          by (simp add: bsearch.simps [of acc x low high])
      qed
    qed
  qed
qed

lemma bsearch_mono:
  "0 \<le> low \<Longrightarrow> low \<le> high + 1 \<Longrightarrow> x \<le> y \<Longrightarrow>
   bsearch acc x low high \<le> bsearch acc y low high"
proof (induction acc x low high rule: bsearch.induct)
  case (1 acc x low high)
  let ?mid = "(low + high) div 2"
  show ?case
  proof (cases "low \<le> high")
    case False
    then show ?thesis
      by (simp add: bsearch.simps [of acc _ low high])
  next
    case True
    then have mid: "low \<le> ?mid" "?mid \<le> high"
      by simp_all
    have right: "?mid + 1 \<le> bsearch acc z (?mid + 1) high" for z
      using bsearch_bounds [of "?mid + 1" high acc z] "1.prems" mid by simp
    have left: "bsearch acc z low (?mid - 1) \<le> ?mid" for z
      using bsearch_bounds [of low "?mid - 1" acc z] "1.prems" mid by simp
    show ?thesis
    proof (cases "array_get acc ?mid")
      case None
      with True show ?thesis
        by (simp add: bsearch.simps [of acc _ low high])
    next
      case (Some a)
      consider (less) "a < x" | (greater) "x < a" | (equal) "a = x"
        by linarith
      then show ?thesis
      proof cases
        case less
        then have "a < y" using "1.prems" by simp
        moreover have "bsearch acc x (?mid + 1) high \<le> bsearch acc y (?mid + 1) high"
          using "1.IH"(1) [OF True refl Some less] "1.prems" mid by simp
        ultimately show ?thesis
          using True Some less by (simp add: bsearch.simps [of acc _ low high])
      next
        case greater
        then have ng: "\<not> a < x" by simp
        have x: "bsearch acc x low high = bsearch acc x low (?mid - 1)"
          using True Some greater ng by (simp add: bsearch.simps [of acc x low high])
        consider (yless) "a < y" | (ygreater) "y < a" | (yequal) "a = y"
          by linarith
        then show ?thesis
        proof cases
          case yless
          then have "bsearch acc y low high = bsearch acc y (?mid + 1) high"
            using True Some by (simp add: bsearch.simps [of acc y low high])
          with x left [of x] right [of y] show ?thesis by simp
        next
          case ygreater
          then have "bsearch acc y low high = bsearch acc y low (?mid - 1)"
            using True Some by (simp add: bsearch.simps [of acc y low high])
          moreover have "bsearch acc x low (?mid - 1) \<le> bsearch acc y low (?mid - 1)"
            using "1.IH"(2) [OF True refl Some ng greater] "1.prems" mid by simp
          ultimately show ?thesis using x by simp
        next
          case yequal
          then have "bsearch acc y low high = ?mid"
            using True Some by (simp add: bsearch.simps [of acc y low high])
          with x left [of x] show ?thesis by simp
        qed
      next
        case equal
        then have x: "bsearch acc x low high = ?mid"
          using True Some by (simp add: bsearch.simps [of acc x low high])
        consider (yless) "a < y" | (yequal) "a = y"
          using equal "1.prems" by linarith
        then show ?thesis
        proof cases
          case yless
          then have "bsearch acc y low high = bsearch acc y (?mid + 1) high"
            using True Some by (simp add: bsearch.simps [of acc y low high])
          with x right [of y] show ?thesis by simp
        next
          case yequal
          with equal x show ?thesis by simp
        qed
      qed
    qed
  qed
qed

lemma bsearch_partition:
  assumes "sorted_wrt (<) acc"
  shows "0 \<le> low \<Longrightarrow> low \<le> high + 1 \<Longrightarrow> high < int (length acc) \<Longrightarrow>
         (\<forall>i. int i < low \<longrightarrow> acc ! i < x) \<Longrightarrow>
         (\<forall>i. high < int i \<and> i < length acc \<longrightarrow> x < acc ! i) \<Longrightarrow>
         (\<forall>i. int i < bsearch acc x low high \<longrightarrow> acc ! i < x) \<and>
         (\<forall>i. bsearch acc x low high \<le> int i \<and> i < length acc \<longrightarrow> x \<le> acc ! i)"
  using assms
proof (induction acc x low high rule: bsearch.induct)
  case (1 acc x low high)
  let ?mid = "(low + high) div 2"
  note strict = \<open>sorted_wrt (<) acc\<close>
  show ?case
  proof (cases "low \<le> high")
    case False
    with "1.prems" have low: "low = high + 1" by simp
    have r: "bsearch acc x low high = low"
      using False "1.prems" by (simp add: bsearch.simps [of acc x low high])
    have "x \<le> acc ! i" if "low \<le> int i" "i < length acc" for i
    proof -
      from that low have "high < int i \<and> i < length acc" by simp
      with "1.prems" have "x < acc ! i" by blast
      then show ?thesis by simp
    qed
    with "1.prems" show ?thesis
      unfolding r by blast
  next
    case True
    then have mid: "low \<le> ?mid" "?mid \<le> high"
      by simp_all
    with "1.prems" have inside: "0 \<le> ?mid" "nat ?mid < length acc"
      by linarith+
    then have cell: "array_get acc ?mid = Some (acc ! nat ?mid)"
      by (simp add: array_get_def)
    have below: "acc ! i < acc ! nat ?mid" if "int i < ?mid" for i
    proof -
      from that inside have "i < nat ?mid" by linarith
      from sorted_wrt_nth_less [OF strict this inside(2)] show ?thesis .
    qed
    have above: "acc ! nat ?mid < acc ! i" if "?mid < int i" "i < length acc" for i
    proof -
      from that inside have "nat ?mid < i" by linarith
      from sorted_wrt_nth_less [OF strict this that(2)] show ?thesis .
    qed
    consider (less) "acc ! nat ?mid < x" | (greater) "x < acc ! nat ?mid"
      | (equal) "acc ! nat ?mid = x"
      by linarith
    then show ?thesis
    proof cases
      case less
      have lower: "\<forall>i. int i < ?mid + 1 \<longrightarrow> acc ! i < x"
      proof (intro allI impI)
        fix i assume "int i < ?mid + 1"
        then consider "int i < ?mid" | "i = nat ?mid" by linarith
        then show "acc ! i < x"
        proof cases
          case 1
          from below [OF 1] less show ?thesis by linarith
        next
          case 2
          with less show ?thesis by simp
        qed
      qed
      have "(\<forall>i. int i < bsearch acc x (?mid + 1) high \<longrightarrow> acc ! i < x) \<and>
            (\<forall>i. bsearch acc x (?mid + 1) high \<le> int i \<and> i < length acc \<longrightarrow> x \<le> acc ! i)"
        using "1.IH"(1) [OF True refl cell less _ _ _ lower] "1.prems" mid strict by simp
      with True cell less show ?thesis
        by (simp add: bsearch.simps [of acc x low high])
    next
      case greater
      then have ng: "\<not> acc ! nat ?mid < x" by simp
      have upper: "\<forall>i. ?mid - 1 < int i \<and> i < length acc \<longrightarrow> x < acc ! i"
      proof (intro allI impI)
        fix i assume i: "?mid - 1 < int i \<and> i < length acc"
        then consider "?mid < int i" | "i = nat ?mid" by linarith
        then show "x < acc ! i"
        proof cases
          case 1
          from above [OF 1] i greater show ?thesis by linarith
        next
          case 2
          with greater show ?thesis by simp
        qed
      qed
      have "(\<forall>i. int i < bsearch acc x low (?mid - 1) \<longrightarrow> acc ! i < x) \<and>
            (\<forall>i. bsearch acc x low (?mid - 1) \<le> int i \<and> i < length acc \<longrightarrow> x \<le> acc ! i)"
        using "1.IH"(2) [OF True refl cell ng greater _ _ _ _ upper] "1.prems" mid strict
        by simp
      with True cell greater ng show ?thesis
        by (simp add: bsearch.simps [of acc x low high])
    next
      case equal
      have r: "bsearch acc x low high = ?mid"
        using True cell equal by (simp add: bsearch.simps [of acc x low high])
      have "acc ! i < x" if "int i < ?mid" for i
        using below [OF that] equal by simp
      moreover have "x \<le> acc ! i" if "?mid \<le> int i" "i < length acc" for i
      proof -
        from that consider "?mid < int i" | "i = nat ?mid" by linarith
        then show ?thesis
        proof cases
          case 1
          from above [OF 1] that equal show ?thesis by linarith
        next
          case 2
          with equal show ?thesis by simp
        qed
      qed
      ultimately show ?thesis
        unfolding r by blast
    qed
  qed
qed

lemma getIndexByScrollTop_search:
  assumes "accumulatedHeights s \<noteq> []"
  shows "getIndexByScrollTop s x =
           Finite (bsearch (accumulatedHeights s) x 0 (int (length (accumulatedHeights s)) - 1))"
    and "0 \<le> bsearch (accumulatedHeights s) x 0 (int (length (accumulatedHeights s)) - 1)"
    and "bsearch (accumulatedHeights s) x 0 (int (length (accumulatedHeights s)) - 1)
           \<le> int (length (accumulatedHeights s))"
  using assms bsearch_bounds [of 0 "int (length (accumulatedHeights s)) - 1" "accumulatedHeights s" x]
  by (simp_all add: getIndexByScrollTop_def)

lemma getIndexByScrollTop_first:
  assumes "accumulatedHeights s \<noteq> []" "sorted_wrt (<) (accumulatedHeights s)"
  shows "\<exists>r\<le>length (accumulatedHeights s).
           getIndexByScrollTop s x = Finite (int r) \<and>
           (\<forall>i<r. accumulatedHeights s ! i < x) \<and>
           (\<forall>i. r \<le> i \<and> i < length (accumulatedHeights s) \<longrightarrow> x \<le> accumulatedHeights s ! i)"
proof -
  let ?acc = "accumulatedHeights s"
  let ?r = "bsearch ?acc x 0 (int (length ?acc) - 1)"
  have part: "(\<forall>i. int i < ?r \<longrightarrow> ?acc ! i < x) \<and>
              (\<forall>i. ?r \<le> int i \<and> i < length ?acc \<longrightarrow> x \<le> ?acc ! i)"
    using assms by (intro bsearch_partition) simp_all
  note search = getIndexByScrollTop_search [OF assms(1), of x]
  have "nat ?r \<le> length ?acc" using search by simp
  moreover have "getIndexByScrollTop s x = Finite (int (nat ?r))" using search by simp
  moreover have "\<forall>i<nat ?r. ?acc ! i < x"
  proof (intro allI impI)
    fix i assume "i < nat ?r"
    then have "int i < ?r" by linarith
    with part show "?acc ! i < x" by blast
  qed
  moreover have "\<forall>i. nat ?r \<le> i \<and> i < length ?acc \<longrightarrow> x \<le> ?acc ! i"
  proof (intro allI impI)
    fix i assume i: "nat ?r \<le> i \<and> i < length ?acc"
    then have "?r \<le> int i" by linarith
    with part i show "x \<le> ?acc ! i" by blast
  qed
  ultimately show ?thesis by blast
qed

section \<open>Locating an index from a scroll offset (C4, C6)\<close>

text \<open>
  Claim C4, as amended. \<^verbatim>\<open>getIndexByScrollTop\<close> falls back to
  \<open>floor(scrollOffset / AverageHeight)\<close> exactly when the cumulative heights are empty (a
  non-finite number when the average is 0), whether or not anything has been measured;
  otherwise it runs the binary search over the cumulative heights, and when these are
  strictly increasing the result \<open>r\<close> is the first index whose cumulative height is at
  least the scroll offset, or the length of the table when there is no such index.
\<close>

theorem getIndexByScrollTop_locates:
  "(accumulatedHeights s = [] \<longrightarrow>
      getIndexByScrollTop s x = js_floor_div x (averageHeight s)) \<and>
   (accumulatedHeights s = [] \<and> averageHeight s \<noteq> 0 \<longrightarrow>
      getIndexByScrollTop s x = Finite \<lfloor>x / averageHeight s\<rfloor>) \<and>
   (accumulatedHeights s \<noteq> [] \<longrightarrow>
      getIndexByScrollTop s x =
        Finite (bsearch (accumulatedHeights s) x 0 (int (length (accumulatedHeights s)) - 1))) \<and>
   (accumulatedHeights s \<noteq> [] \<and> sorted_wrt (<) (accumulatedHeights s) \<longrightarrow>
      (\<exists>r\<le>length (accumulatedHeights s).
         getIndexByScrollTop s x = Finite (int r) \<and>
         (\<forall>i<r. accumulatedHeights s ! i < x) \<and>
         (\<forall>i. r \<le> i \<and> i < length (accumulatedHeights s) \<longrightarrow> x \<le> accumulatedHeights s ! i)))"
  using getIndexByScrollTop_first [of s x]
  by (simp add: getIndexByScrollTop_def js_floor_div_def)

theorem getIndexByScrollTop_locates_witness:
  "getIndexByScrollTop ten_items 250 = Finite 2 \<and>
   getIndexByScrollTop (empty_state 100) 250 = Finite 2"
proof -
  have acc: "accumulatedHeights ten_items = [100, 200, 300, 400, 500, 600, 700, 800, 900, 1000]"
    by code_simp
  have strict: "accumulatedHeights ten_items \<noteq> [] \<and> sorted_wrt (<) (accumulatedHeights ten_items)"
    unfolding acc by simp
  obtain r where r: "getIndexByScrollTop ten_items 250 = Finite (int r)"
      "\<forall>i<r. accumulatedHeights ten_items ! i < 250"
      "\<forall>i. r \<le> i \<and> i < length (accumulatedHeights ten_items) \<longrightarrow>
           250 \<le> accumulatedHeights ten_items ! i"
    using getIndexByScrollTop_locates [of ten_items 250] strict by blast
  have "\<not> 2 < r"
    using r(2) [rule_format, of 2] unfolding acc by auto
  moreover have "\<not> r \<le> 1"
    using r(3) [rule_format, of 1] unfolding acc by auto
  ultimately have "r = 2" by simp
  with r(1) have first: "getIndexByScrollTop ten_items 250 = Finite 2" by simp
  have empty: "accumulatedHeights (empty_state 100) = [] \<and> averageHeight (empty_state 100) \<noteq> 0"
    by (simp add: empty_state_def initial_state_def small_props_def)
  have avg: "averageHeight (empty_state 100) = 100"
    by (simp add: empty_state_def initial_state_def small_props_def)
  have "getIndexByScrollTop (empty_state 100) 250
          = Finite \<lfloor>250 / averageHeight (empty_state 100)\<rfloor>"
    using getIndexByScrollTop_locates [of "empty_state 100" 250] empty by blast
  also have "\<dots> = Finite 2"
    unfolding avg by simp
  finally show ?thesis
    using first by simp
qed

text \<open>
  The claim as stated fails on a freshly populated list: nothing has been measured, yet the
  binary search is taken and offset 200 is located at index 1, where the fallback formula
  gives 2. Where cumulative heights repeat, the search may stop at an index that is not
  the first one: with three cumulative heights 0 it returns 1 for offset 0.
\<close>

theorem locate_fallback_counterexample:
  "measuredIndices ten_items = {} \<and>
   getIndexByScrollTop ten_items 200 = Finite 1 \<and>
   Finite \<lfloor>200 / averageHeight ten_items\<rfloor> = Finite 2 \<and>
   accumulatedHeights flat_state = [0, 0, 0] \<and>
   getIndexByScrollTop flat_state 0 = Finite 1"
  by code_simp

text \<open>
  Claim C6. For a fixed state and scroll offsets \<open>s1 \<le> s2\<close>,
  \<open>locateIndex(s1) \<le> locateIndex(s2)\<close>. This holds at every call the component makes:
  \<^verbatim>\<open>updateVisibleItems\<close>, the only caller, returns before the call when \<^verbatim>\<open>copyList\<close> is
  empty, and a consistent state with a non-empty \<^verbatim>\<open>copyList\<close> has cumulative heights, so
  the binary search runs. The binary-search branch is monotone whatever the cumulative
  heights are. The fallback branch, which is taken only without cumulative heights, is
  monotone for a positive average height.
\<close>

theorem getIndexByScrollTop_monotone:
  "x \<le> y \<Longrightarrow>
   (consistent s \<and> copyList s \<noteq> [] \<longrightarrow>
      js_le (getIndexByScrollTop s x) (getIndexByScrollTop s y)) \<and>
   (accumulatedHeights s \<noteq> [] \<longrightarrow>
      js_le (getIndexByScrollTop s x) (getIndexByScrollTop s y)) \<and>
   (accumulatedHeights s = [] \<and> 0 < averageHeight s \<longrightarrow>
      js_le (getIndexByScrollTop s x) (getIndexByScrollTop s y))"
proof -
  assume le: "x \<le> y"
  have search: "js_le (getIndexByScrollTop s x) (getIndexByScrollTop s y)"
    if "accumulatedHeights s \<noteq> []"
  proof -
    have "bsearch (accumulatedHeights s) x 0 (int (length (accumulatedHeights s)) - 1)
           \<le> bsearch (accumulatedHeights s) y 0 (int (length (accumulatedHeights s)) - 1)"
      using le by (intro bsearch_mono) simp_all
    with that show ?thesis
      by (simp add: getIndexByScrollTop_def)
  qed
  have called: "accumulatedHeights s \<noteq> []" if "consistent s \<and> copyList s \<noteq> []"
    using that by (auto simp: consistent_def)
  have fallback: "js_le (getIndexByScrollTop s x) (getIndexByScrollTop s y)"
    if "accumulatedHeights s = [] \<and> 0 < averageHeight s"
  proof -
    from that le have "x / averageHeight s \<le> y / averageHeight s" "averageHeight s \<noteq> 0"
      by (simp_all add: divide_right_mono)
    with that show ?thesis
      by (simp add: getIndexByScrollTop_def js_floor_div_def floor_mono)
  qed
  from search called fallback show ?thesis
    by blast
qed

theorem getIndexByScrollTop_monotone_witness:
  "consistent ten_items \<and> copyList ten_items \<noteq> [] \<and>
   js_le (getIndexByScrollTop ten_items 150) (getIndexByScrollTop ten_items 950) \<and>
   accumulatedHeights (empty_state 100) = [] \<and> 0 < averageHeight (empty_state 100) \<and>
   js_le (getIndexByScrollTop (empty_state 100) 150) (getIndexByScrollTop (empty_state 100) 950)"
proof -
  have called: "consistent ten_items \<and> copyList ten_items \<noteq> []"
    by code_simp
  have idle: "accumulatedHeights (empty_state 100) = [] \<and> 0 < averageHeight (empty_state 100)"
    by (simp add: empty_state_def initial_state_def small_props_def)
  have le: "(150::real) \<le> 950"
    by simp
  from getIndexByScrollTop_monotone [OF le, of ten_items] called
  have "js_le (getIndexByScrollTop ten_items 150) (getIndexByScrollTop ten_items 950)"
    by blast
  moreover from getIndexByScrollTop_monotone [OF le, of "empty_state 100"] idle
  have "js_le (getIndexByScrollTop (empty_state 100) 150)
          (getIndexByScrollTop (empty_state 100) 950)"
    by blast
  ultimately show ?thesis
    using called idle by simp
qed

section \<open>The window after a list replacement and after a scroll\<close>

lemma populate_copyList:
  "map c_index (copyList (populate_list p xs s)) = [0..<length xs]"
  "length (copyList (populate_list p xs s)) = length xs"
proof -
  have "map (c_index \<circ> (\<lambda>(i, item). \<lparr>c_payload = item, c_index = i, measuredHeight = None\<rparr>))
          (enumerate 0 xs) = map fst (enumerate 0 xs)"
    by (simp add: comp_def case_prod_beta)
  then show "map c_index (copyList (populate_list p xs s)) = [0..<length xs]"
    by (simp add: populate_list_def Let_def initItemHeights_def)
  show "length (copyList (populate_list p xs s)) = length xs"
    by (simp add: populate_list_def Let_def initItemHeights_def)
qed

lemma populate_heights:
  "itemHeights (populate_list p xs s) = replicate (length xs) (Some (itemHeight p))"
  "averageHeight (populate_list p xs s) = itemHeight p"
  "currentIndex (populate_list p xs s) = currentIndex s"
  "length (accumulatedHeights (populate_list p xs s)) = length xs"
  by (simp_all add: populate_list_def Let_def initItemHeights_def)

lemma populate_consistent: "consistent (populate_list p xs s)"
  by (simp add: consistent_def populate_copyList populate_heights)

lemma watch_list_consistent: "consistent (watch_list p newVal s)"
  by (simp add: watch_list_def populate_consistent split: option.splits)
     (simp add: consistent_def clear_list_def)

lemma populate_accumulated_nth:
  assumes "i < length xs" "itemHeight p \<noteq> 0"
  shows "accumulatedHeights (populate_list p xs s) ! i = real (Suc i) * itemHeight p"
proof -
  let ?s = "s\<lparr>copyList :=
                 map (\<lambda>(i, item). \<lparr>c_payload = item, c_index = i, measuredHeight = None\<rparr>)
                   (enumerate 0 xs),
               measuredIndices := {}, positionCache := Map.empty,
               averageHeight := itemHeight p,
               itemHeights := replicate (length xs) (Some (itemHeight p)),
               positionCache := Map.empty\<rparr>"
  have "accumulatedHeights (populate_list p xs s) = accumulatedHeights (updateAccumulatedHeights ?s)"
    by (simp add: populate_list_def Let_def initItemHeights_def)
  also have "\<dots> ! i = (\<Sum>h\<leftarrow>take (Suc i) (itemHeights ?s). js_or h (averageHeight ?s))"
    using assms by (intro rebuilt_nth) simp
  also have "\<dots> = real (Suc i) * itemHeight p"
    using assms by (simp add: js_or_def sum_list_replicate min_def del: replicate_Suc take_Suc)
  finally show ?thesis .
qed

lemma estimatedIndex_bounds:
  assumes "estimatedIndex p s x = Some e"
  shows "0 \<le> e \<and> e \<le> max 0 (int (length (copyList s)) - int (virtualListLength p))"
  using assms by (auto simp: estimatedIndex_def clampEstimated_def split: jsnum.splits)

lemma estimatedIndex_defined:
  assumes "accumulatedHeights s \<noteq> []"
  shows "\<exists>e. estimatedIndex p s x = Some e"
  using assms by (simp add: estimatedIndex_def clampEstimated_def getIndexByScrollTop_def)

lemma updateVisibleItems_recompute:
  assumes "consistent s" "copyList s \<noteq> []" "estimatedIndex p s x = Some e"
    "\<bar>e - currentIndex s\<bar> > int (preloadCount p div 3)"
  shows "map index (virtualList (updateVisibleItems p s x)) =
           [nat (max 0 (e - int (preloadCount p)))..<
            nat (min (int (length (copyList s)))
                   (e + int (virtualListLength p) + int (preloadCount p)))]"
    and "currentIndex (updateVisibleItems p s x) = e"
proof -
  have e: "0 \<le> e" using estimatedIndex_bounds [OF assms(3)] by simp
  have c: "consistent (s\<lparr>currentIndex := e\<rparr>)"
    using assms(1) by (simp add: consistent_def)
  have "map index (virtualList (calculateVirtualList p (s\<lparr>currentIndex := e\<rparr>)
          (max 0 (e - int (preloadCount p)))
          (min (int (length (copyList s)))
             (e + int (virtualListLength p) + int (preloadCount p))))) =
        [nat (max 0 (e - int (preloadCount p)))..<
         nat (min (int (length (copyList s)))
                (e + int (virtualListLength p) + int (preloadCount p)))]"
    using e by (intro calculateVirtualList_range [OF c]) simp_all
  with assms show "map index (virtualList (updateVisibleItems p s x)) =
           [nat (max 0 (e - int (preloadCount p)))..<
            nat (min (int (length (copyList s)))
                   (e + int (virtualListLength p) + int (preloadCount p)))]"
    by (simp add: updateVisibleItems_def)
  from assms show "currentIndex (updateVisibleItems p s x) = e"
    by (simp add: updateVisibleItems_def)
qed

lemma updateVisibleItems_keep:
  assumes "estimatedIndex p s x = Some e"
    "\<not> \<bar>e - currentIndex s\<bar> > int (preloadCount p div 3)"
  shows "updateVisibleItems p s x = s"
  using assms by (simp add: updateVisibleItems_def)

section \<open>The scroll-driven update (C7)\<close>

text \<open>
  Claim C7. On a scroll-driven update of a consistent state with a non-empty list of length
  \<open>N\<close>, the estimated index is clamped to \<open>[0, max(0, N - virtualListLength)]\<close>. When it
  differs from \<^verbatim>\<open>currentIndex\<close> by more than \<open>floor(preloadCount / 3)\<close>, the window becomes
  \<open>[max(0, e - preloadCount), min(N, e + virtualListLength + preloadCount))\<close> and
  \<^verbatim>\<open>currentIndex\<close> becomes the estimate; otherwise the state, and with it the window,
  \<^verbatim>\<open>currentIndex\<close> and every offset, is unchanged. The witness is the scenario of the
  specification: a thousand elements of height 100, window length 20, preload count 10; the
  offset 50100 is located at 500 and yields the window \<open>[490, 530)\<close>, the offset 350 is
  located at 3 and changes nothing.
\<close>

theorem updateVisibleItems_hysteresis:
  assumes "consistent s" "copyList s \<noteq> []"
  shows "\<exists>e. estimatedIndex p s x = Some e \<and>
             0 \<le> e \<and> e \<le> max 0 (int (length (copyList s)) - int (virtualListLength p)) \<and>
             (if \<bar>e - currentIndex s\<bar> > int (preloadCount p div 3)
              then map index (virtualList (updateVisibleItems p s x)) =
                     [nat (max 0 (e - int (preloadCount p)))..<
                      nat (min (int (length (copyList s)))
                             (e + int (virtualListLength p) + int (preloadCount p)))] \<and>
                   currentIndex (updateVisibleItems p s x) = e
              else updateVisibleItems p s x = s)"
proof -
  from assms have "accumulatedHeights s \<noteq> []"
    by (auto simp: consistent_def)
  then obtain e where e: "estimatedIndex p s x = Some e"
    using estimatedIndex_defined by blast
  show ?thesis
  proof (cases "\<bar>e - currentIndex s\<bar> > int (preloadCount p div 3)")
    case True
    with e estimatedIndex_bounds [OF e] updateVisibleItems_recompute [OF assms e True]
    show ?thesis by simp
  next
    case False
    with e estimatedIndex_bounds [OF e] updateVisibleItems_keep [OF e False]
    show ?thesis by simp
  qed
qed

theorem updateVisibleItems_hysteresis_witness:
  "estimatedIndex default_props thousand_items 50100 = Some 500 \<and>
   currentIndex thousand_items = 0 \<and>
   map index (virtualList (updateVisibleItems default_props thousand_items 50100)) = [490..<530] \<and>
   currentIndex (updateVisibleItems default_props thousand_items 50100) = 500 \<and>
   updateVisibleItems default_props thousand_items 350 = thousand_items"
proof -
  let ?s = thousand_items
  have pop: "?s = populate_list default_props (replicate 1000 ()) (initial_state default_props)"
    by (simp add: thousand_items_def watch_list_def)
  have cons: "consistent ?s"
    unfolding thousand_items_def by (rule watch_list_consistent)
  have len: "length (copyList ?s) = 1000"
    unfolding pop by (simp add: populate_copyList)
  then have ne: "copyList ?s \<noteq> []" by auto
  have cur: "currentIndex ?s = 0"
    unfolding pop by (simp add: populate_heights initial_state_def)
  have alen: "length (accumulatedHeights ?s) = 1000"
    unfolding pop by (simp add: populate_heights)
  then have ane: "accumulatedHeights ?s \<noteq> []" by auto
  have cell: "accumulatedHeights ?s ! i = real (Suc i) * 100" if "i < 1000" for i
    unfolding pop using that
    by (simp add: populate_accumulated_nth default_props_def del: of_nat_Suc)
  have strict: "sorted_wrt (<) (accumulatedHeights ?s)"
    unfolding sorted_wrt_iff_nth_less using alen by (auto simp: cell)
  have est: "estimatedIndex default_props ?s y = Some (int r)"
    if "r \<le> 980" "\<forall>i<r. accumulatedHeights ?s ! i < y"
       "\<forall>i. r \<le> i \<and> i < 1000 \<longrightarrow> y \<le> accumulatedHeights ?s ! i" for r y
  proof -
    obtain q where q: "getIndexByScrollTop ?s y = Finite (int q)" "q \<le> 1000"
        "\<forall>i<q. accumulatedHeights ?s ! i < y"
        "\<forall>i. q \<le> i \<and> i < 1000 \<longrightarrow> y \<le> accumulatedHeights ?s ! i"
      using getIndexByScrollTop_first [OF ane strict, of y] alen by auto
    have "\<not> q < r"
    proof
      assume less: "q < r"
      with that(2) have "accumulatedHeights ?s ! q < y" by blast
      moreover from less that(1) q(4) have "y \<le> accumulatedHeights ?s ! q" by simp
      ultimately show False by simp
    qed
    moreover have "\<not> r < q"
    proof
      assume less: "r < q"
      with q(3) have "accumulatedHeights ?s ! r < y" by blast
      moreover from less q(2) that(3) have "y \<le> accumulatedHeights ?s ! r" by simp
      ultimately show False by simp
    qed
    ultimately have "q = r" by simp
    with q(1) that(1) len show ?thesis
      by (simp add: estimatedIndex_def clampEstimated_def default_props_def)
  qed
  have e500: "estimatedIndex default_props ?s 50100 = Some 500"
    using est [of 500 50100] by (auto simp: cell)
  have e3: "estimatedIndex default_props ?s 350 = Some 3"
    using est [of 3 350] by (auto simp: cell)
  obtain e where e: "estimatedIndex default_props ?s 50100 = Some e"
      "if \<bar>e - currentIndex ?s\<bar> > int (preloadCount default_props div 3)
       then map index (virtualList (updateVisibleItems default_props ?s 50100)) =
              [nat (max 0 (e - int (preloadCount default_props)))..<
               nat (min (int (length (copyList ?s)))
                      (e + int (virtualListLength default_props)
                         + int (preloadCount default_props)))] \<and>
            currentIndex (updateVisibleItems default_props ?s 50100) = e
       else updateVisibleItems default_props ?s 50100 = ?s"
    using updateVisibleItems_hysteresis [OF cons ne, of default_props 50100] by blast
  from e(1) e500 have "e = 500" by simp
  with e(2) cur len have jump:
    "map index (virtualList (updateVisibleItems default_props ?s 50100)) = [490..<530] \<and>
     currentIndex (updateVisibleItems default_props ?s 50100) = 500"
    by (simp add: default_props_def)
  obtain d where d: "estimatedIndex default_props ?s 350 = Some d"
      "if \<bar>d - currentIndex ?s\<bar> > int (preloadCount default_props div 3)
       then map index (virtualList (updateVisibleItems default_props ?s 350)) =
              [nat (max 0 (d - int (preloadCount default_props)))..<
               nat (min (int (length (copyList ?s)))
                      (d + int (virtualListLength default_props)
                         + int (preloadCount default_props)))] \<and>
            currentIndex (updateVisibleItems default_props ?s 350) = d
       else updateVisibleItems default_props ?s 350 = ?s"
    using updateVisibleItems_hysteresis [OF cons ne, of default_props 350] by blast
  from d(1) e3 have "d = 3" by simp
  with d(2) cur have "updateVisibleItems default_props ?s 350 = ?s"
    by (simp add: default_props_def)
  with e500 cur jump show ?thesis by simp
qed

section \<open>Size and shape of the materialized window (C1)\<close>

lemma populate_window:
  "map index (virtualList (populate_list p xs s)) =
     [0..<min (length xs) (virtualListLength p + preloadCount p)]"
proof -
  let ?s3 = "initItemHeights p
    (s\<lparr>copyList := map (\<lambda>(i, item). \<lparr>c_payload = item, c_index = i, measuredHeight = None\<rparr>)
                     (enumerate 0 xs),
       measuredIndices := {}, positionCache := Map.empty, averageHeight := itemHeight p\<rparr>)"
  let ?b = "min (int (length xs)) (int (virtualListLength p) + int (preloadCount p))"
  have "map (c_index \<circ> (\<lambda>(i, item). \<lparr>c_payload = item, c_index = i, measuredHeight = None\<rparr>))
          (enumerate 0 xs) = map fst (enumerate 0 xs)"
    by (simp add: comp_def case_prod_beta)
  then have cons: "consistent ?s3"
    by (simp add: consistent_def initItemHeights_def)
  have len: "length (copyList ?s3) = length xs"
    by (simp add: initItemHeights_def)
  have "map index (virtualList (calculateVirtualList p ?s3 0 ?b)) = [nat 0..<nat ?b]"
    by (rule calculateVirtualList_range [OF cons]) (simp_all add: len)
  moreover have "nat ?b = min (length xs) (virtualListLength p + preloadCount p)"
    by linarith
  ultimately show ?thesis
    by (simp add: populate_list_def Let_def)
qed

text \<open>
  Claim C1, as amended. For a non-empty source list of length \<open>N\<close> the materialized window
  is a contiguous sub-range of \<open>[0, N)\<close> whenever it is recomputed: every call of
  \<^verbatim>\<open>calculateVirtualList\<close> on a consistent state yields one. At initial population the
  window is \<open>[0, min(N, virtualListLength + preloadCount))\<close>. On a recompute driven by a
  scroll its size is at most \<open>min(N, virtualListLength + 2 * preloadCount)\<close>, and it is
  exactly \<open>virtualListLength + 2 * preloadCount\<close> when the window is clamped at neither
  end of the list.
\<close>

theorem window_contiguous_bounded:
  "map index (virtualList (watch_list p (Some (x # xs)) s)) =
     [0..<min (Suc (length xs)) (virtualListLength p + preloadCount p)] \<and>
   (consistent s \<longrightarrow>
      (\<exists>lo hi. map index (virtualList (calculateVirtualList p s a b)) = [lo..<hi] \<and>
               hi \<le> length (copyList s))) \<and>
   (consistent s \<and> copyList s \<noteq> [] \<and> estimatedIndex p s y = Some e \<and>
    \<bar>e - currentIndex s\<bar> > int (preloadCount p div 3) \<longrightarrow>
      (\<exists>a b. map index (virtualList (updateVisibleItems p s y)) = [a..<b] \<and>
             a \<le> b \<and> b \<le> length (copyList s) \<and>
             length (virtualList (updateVisibleItems p s y)) = b - a \<and>
             b - a \<le> min (length (copyList s)) (virtualListLength p + 2 * preloadCount p) \<and>
             (int (preloadCount p) \<le> e \<and>
              e + int (virtualListLength p) + int (preloadCount p) \<le> int (length (copyList s)) \<longrightarrow>
                b - a = virtualListLength p + 2 * preloadCount p)))"
proof (intro conjI impI)
  show "map index (virtualList (watch_list p (Some (x # xs)) s)) =
     [0..<min (Suc (length xs)) (virtualListLength p + preloadCount p)]"
    using populate_window [of p "x # xs" s] by (simp add: watch_list_def)
next
  assume "consistent s"
  then show "\<exists>lo hi. map index (virtualList (calculateVirtualList p s a b)) = [lo..<hi] \<and>
                     hi \<le> length (copyList s)"
    by (rule calculateVirtualList_contiguous)
next
  assume h: "consistent s \<and> copyList s \<noteq> [] \<and> estimatedIndex p s y = Some e \<and>
    \<bar>e - currentIndex s\<bar> > int (preloadCount p div 3)"
  let ?a = "nat (max 0 (e - int (preloadCount p)))"
  let ?b = "nat (min (int (length (copyList s)))
                   (e + int (virtualListLength p) + int (preloadCount p)))"
  from h have bounds: "0 \<le> e"
      "e \<le> max 0 (int (length (copyList s)) - int (virtualListLength p))"
    using estimatedIndex_bounds [of p s y e] by simp_all
  from h have win: "map index (virtualList (updateVisibleItems p s y)) = [?a..<?b]"
    using updateVisibleItems_recompute(1) [of s p y e] by blast
  have "length (map index (virtualList (updateVisibleItems p s y))) = ?b - ?a"
    unfolding win by simp
  then have size: "length (virtualList (updateVisibleItems p s y)) = ?b - ?a"
    by simp
  have "?a \<le> ?b" using bounds by linarith
  moreover have "?b \<le> length (copyList s)" by linarith
  moreover have "?b - ?a \<le> min (length (copyList s)) (virtualListLength p + 2 * preloadCount p)"
    using bounds by linarith
  moreover have "?b - ?a = virtualListLength p + 2 * preloadCount p"
    if "int (preloadCount p) \<le> e \<and>
        e + int (virtualListLength p) + int (preloadCount p) \<le> int (length (copyList s))"
    using that by linarith
  ultimately show "\<exists>a b. map index (virtualList (updateVisibleItems p s y)) = [a..<b] \<and>
             a \<le> b \<and> b \<le> length (copyList s) \<and>
             length (virtualList (updateVisibleItems p s y)) = b - a \<and>
             b - a \<le> min (length (copyList s)) (virtualListLength p + 2 * preloadCount p) \<and>
             (int (preloadCount p) \<le> e \<and>
              e + int (virtualListLength p) + int (preloadCount p) \<le> int (length (copyList s)) \<longrightarrow>
                b - a = virtualListLength p + 2 * preloadCount p)"
    using win size by blast
qed

theorem window_contiguous_bounded_witness:
  "map index (virtualList (watch_list small_props (Some [(), (), ()]) ten_items)) = [0, 1, 2] \<and>
   estimatedIndex small_props ten_items 450 = Some 4 \<and>
   length (virtualList (updateVisibleItems small_props ten_items 450)) = 8"
proof -
  have cons: "consistent ten_items"
    unfolding ten_items_def by (rule watch_list_consistent)
  have ne: "copyList ten_items \<noteq> []"
    by code_simp
  have len: "length (copyList ten_items) = 10"
    by code_simp
  have est: "estimatedIndex small_props ten_items 450 = Some 4"
    by code_simp
  have cur: "currentIndex ten_items = 0"
    by code_simp
  have gate: "\<bar>4 - currentIndex ten_items\<bar> > int (preloadCount small_props div 3)"
    unfolding cur by (simp add: small_props_def)
  note main = window_contiguous_bounded [of small_props "()" "[(), ()]" ten_items _ _ 450 4]
  obtain a b where ab:
      "length (virtualList (updateVisibleItems small_props ten_items 450)) = b - a"
      "int (preloadCount small_props) \<le> 4 \<and>
       4 + int (virtualListLength small_props) + int (preloadCount small_props)
         \<le> int (length (copyList ten_items)) \<longrightarrow>
       b - a = virtualListLength small_props + 2 * preloadCount small_props"
    using main cons ne est gate by blast
  from ab(2) len have "b - a = 8"
    by (simp add: small_props_def)
  with ab(1) have "length (virtualList (updateVisibleItems small_props ten_items 450)) = 8"
    by simp
  moreover have "map index (virtualList (watch_list small_props (Some [(), (), ()]) ten_items))
                   = [0, 1, 2]"
  proof -
    have "map index (virtualList (watch_list small_props (Some [(), (), ()]) ten_items)) =
            [0..<min (Suc (length [(), ()]))
                   (virtualListLength small_props + preloadCount small_props)]"
      using main by blast
    also have "\<dots> = [0, 1, 2]"
      by code_simp
    finally show ?thesis .
  qed
  ultimately show ?thesis
    using est by simp
qed

text \<open>
  The size stated by the claim is not reached at initial population, where only one preload
  margin is added: ten elements, window length 2 and preload count 3 give a window of 5
  items, not \<open>min(10, 2 + 6) = 8\<close>. Nor is it reached at the end of the list: scrolling to
  offset 900 materializes \<open>[5, 10)\<close>.
\<close>

theorem window_size_counterexample:
  "length (copyList ten_items) = 10 \<and>
   map index (virtualList ten_items) = [0, 1, 2, 3, 4] \<and>
   min (length (copyList ten_items))
     (virtualListLength small_props + 2 * preloadCount small_props) = 8 \<and>
   length (virtualList ten_items) \<noteq>
     min (length (copyList ten_items))
       (virtualListLength small_props + 2 * preloadCount small_props) \<and>
   map index (virtualList (updateVisibleItems small_props ten_items 900)) = [5, 6, 7, 8, 9]"
  by code_simp

section \<open>The two positioning strategies (C10)\<close>

lemma js_or_zero [simp]: "js_or (Some v) 0 = v"
  by (simp add: js_or_def)

lemma stamp_index [simp]: "index (stamp acc item) = index item"
  by (simp add: stamp_def)

lemma stamp_translateY [simp]:
  "translateY (stamp acc item) = absolute_offset acc (index item)"
  by (simp add: stamp_def)

lemma absolute_loop_stamps:
  "\<forall>j. pc j = None \<or> pc j = Some (absolute_offset acc j) \<Longrightarrow>
   fst (absolute_loop acc pc items) = map (stamp acc) items"
proof (induction items arbitrary: pc)
  case Nil
  then show ?case by simp
next
  case (Cons item items)
  show ?case
  proof (cases "index item = 0")
    case True
    with Cons show ?thesis
      by (simp add: case_prod_beta stamp_def absolute_offset_def)
  next
    case False
    show ?thesis
    proof (cases "pc (index item)")
      case None
      let ?pos = "js_or (array_get acc (int (index item) - 1)) 0"
      have pos: "?pos = absolute_offset acc (index item)"
        using False by (simp add: absolute_offset_def)
      have "\<forall>j. (pc(index item \<mapsto> ?pos)) j = None \<or>
                (pc(index item \<mapsto> ?pos)) j = Some (absolute_offset acc j)"
        using Cons.prems pos by simp
      then have "fst (absolute_loop acc (pc(index item \<mapsto> ?pos)) items) = map (stamp acc) items"
        by (rule Cons.IH)
      with False None pos show ?thesis
        by (simp add: case_prod_beta Let_def stamp_def)
    next
      case (Some c)
      with Cons.prems have "c = absolute_offset acc (index item)"
        by (metis option.distinct(1) option.inject)
      with False Some Cons show ?thesis
        by (simp add: case_prod_beta stamp_def)
    qed
  qed
qed

lemma find_upt_first:
  "r < n \<Longrightarrow> P r \<Longrightarrow> \<forall>i<r. \<not> P i \<Longrightarrow> find P [0..<n] = Some r"
  by (simp add: find_Some_iff) (metis add_0 less_trans nth_upt)

lemma cumulative_step_miss:
  assumes "index (vl ! k) \<noteq> 0" "pc (index (vl ! k)) = None"
    "(case find (\<lambda>r. index (vl ! r) = index (vl ! k) - 1) sl of
        Some r \<Rightarrow> translateY (vl ! r) + js_or (height_at hs (index (vl ! k) - 1)) avg
      | None \<Rightarrow> js_or (array_get acc (int (index (vl ! k) - 1))) 0) = y"
  shows "cumulative_step hs avg acc sl k (vl, pc) =
           (vl[k := (vl ! k)\<lparr>translateY := y\<rparr>], pc(index (vl ! k) \<mapsto> y))"
  unfolding cumulative_step_def Let_def
  by (simp only: assms fst_conv snd_conv if_False option.case)

lemma cumulative_step_stamp:
  assumes win: "map index vl = [a..<b]" and k: "k < length vl"
    and before: "\<forall>q<k. translateY (vl ! q) = absolute_offset acc (a + q)"
    and miss: "pc (a + k) = None"
    and chain: "\<forall>j. Suc j < b \<longrightarrow>
                  absolute_offset acc j + js_or (height_at hs j) avg = absolute_offset acc (Suc j)"
  shows "cumulative_step hs avg acc [0..<length vl] k (vl, pc) =
           (vl[k := stamp acc (vl ! k)],
            if a + k = 0 then pc else pc(a + k \<mapsto> absolute_offset acc (a + k)))"
proof -
  have len: "length vl = b - a"
    using win by (metis length_map length_upt)
  have idx: "index (vl ! r) = a + r" if "r < length vl" for r
  proof -
    have "index (vl ! r) = map index vl ! r" using that by simp
    also have "\<dots> = a + r" unfolding win using that len by simp
    finally show ?thesis .
  qed
  have ik: "index (vl ! k) = a + k" by (rule idx [OF k])
  show ?thesis
  proof (cases "a + k = 0")
    case True
    with k ik show ?thesis
      by (simp add: cumulative_step_def stamp_def absolute_offset_def)
  next
    case False
    have inb: "a + k < b" using k len by simp
    have "(case find (\<lambda>r. index (vl ! r) = index (vl ! k) - 1) [0..<length vl] of
             Some r \<Rightarrow> translateY (vl ! r) + js_or (height_at hs (index (vl ! k) - 1)) avg
           | None \<Rightarrow> js_or (array_get acc (int (index (vl ! k) - 1))) 0)
          = absolute_offset acc (a + k)"
    proof (cases k)
      case 0
      with False have a: "0 < a" by simp
      have "find (\<lambda>r. index (vl ! r) = index (vl ! k) - 1) [0..<length vl] = None"
        unfolding ik using idx a 0 by (auto simp: find_None_iff)
      moreover have "js_or (array_get acc (int (index (vl ! k) - 1))) 0
                       = absolute_offset acc (a + k)"
      proof -
        from False have "int (a + k - 1) = int (a + k) - 1" by linarith
        with False show ?thesis unfolding ik by (simp only: absolute_offset_def if_False)
      qed
      ultimately show ?thesis by (simp only: option.case)
    next
      case (Suc q)
      have prev: "index (vl ! k) - 1 = a + q"
        unfolding ik using Suc by simp
      have "find (\<lambda>r. index (vl ! r) = index (vl ! k) - 1) [0..<length vl] = Some q"
        unfolding prev
      proof (rule find_upt_first)
        show "q < length vl" using k Suc by simp
        show "index (vl ! q) = a + q" using idx [of q] k Suc by simp
        show "\<forall>i<q. index (vl ! i) \<noteq> a + q"
          using idx k Suc by simp
      qed
      moreover have "translateY (vl ! q) = absolute_offset acc (a + q)"
        using before Suc by simp
      moreover have "absolute_offset acc (a + q) + js_or (height_at hs (a + q)) avg
                       = absolute_offset acc (Suc (a + q))"
        using chain inb Suc by simp
      moreover have "Suc (a + q) = a + k" using Suc by simp
      ultimately show ?thesis
        by (simp only: option.case prev)
    qed
    then have "cumulative_step hs avg acc [0..<length vl] k (vl, pc) =
           (vl[k := (vl ! k)\<lparr>translateY := absolute_offset acc (a + k)\<rparr>],
            pc(index (vl ! k) \<mapsto> absolute_offset acc (a + k)))"
      using False miss ik by (intro cumulative_step_miss) simp_all
    then show ?thesis
      unfolding stamp_def ik by (simp only: False if_False)
  qed
qed

lemma stamp_prefix_update:
  assumes "k < length vl"
  shows "(map f (take k vl) @ drop k vl)[k := f (vl ! k)] =
           map f (take (Suc k) vl) @ drop (Suc k) vl"
proof -
  have "drop k vl = vl ! k # drop (Suc k) vl"
    using assms by (simp add: Cons_nth_drop_Suc)
  moreover have "take (Suc k) vl = take k vl @ [vl ! k]"
    using assms by (rule take_Suc_conv_app_nth)
  ultimately show ?thesis
    using assms by (simp add: list_update_append)
qed

lemma cumulative_fold_stamps:
  assumes win: "map index vl = [a..<b]"
    and chain: "\<forall>j. Suc j < b \<longrightarrow>
                  absolute_offset acc j + js_or (height_at hs j) avg = absolute_offset acc (Suc j)"
  shows "k \<le> length vl \<Longrightarrow>
         fold (cumulative_step hs avg acc [0..<length vl]) [0..<k] (vl, Map.empty) =
           (map (stamp acc) (take k vl) @ drop k vl,
            \<lambda>j. if a \<le> j \<and> j < a + k \<and> j \<noteq> 0 then Some (absolute_offset acc j) else None)"
proof (induction k)
  case 0
  have "Map.empty =
          (\<lambda>j. if a \<le> j \<and> j < a + 0 \<and> j \<noteq> 0 then Some (absolute_offset acc j) else None)"
    by (rule ext) auto
  then show ?case by simp
next
  case (Suc k)
  let ?vl = "map (stamp acc) (take k vl) @ drop k vl"
  let ?pc = "\<lambda>j. if a \<le> j \<and> j < a + k \<and> j \<noteq> 0 then Some (absolute_offset acc j) else None"
  from Suc.prems have k: "k < length vl" by simp
  have len: "length ?vl = length vl" by simp
  have same: "?vl ! k = vl ! k"
    using k by (simp add: nth_append)
  have idx: "map index ?vl = [a..<b]"
  proof -
    have "map index ?vl = map index (take k vl) @ map index (drop k vl)"
      by (simp add: comp_def)
    also have "\<dots> = map index (take k vl @ drop k vl)"
      by (simp only: map_append)
    also have "\<dots> = map index vl"
      by (simp only: append_take_drop_id)
    finally show ?thesis using win by simp
  qed
  have off: "index (vl ! q) = a + q" if "q < length vl" for q
  proof -
    have "index (vl ! q) = map index vl ! q" using that by simp
    also have "\<dots> = a + q"
      unfolding win using that win by (metis length_map nth_upt length_upt less_diff_conv add.commute)
    finally show ?thesis .
  qed
  have before: "\<forall>q<k. translateY (?vl ! q) = absolute_offset acc (a + q)"
    using k by (simp add: nth_append off)
  have miss: "?pc (a + k) = None" by simp
  have "fold (cumulative_step hs avg acc [0..<length vl]) [0..<Suc k] (vl, Map.empty) =
          cumulative_step hs avg acc [0..<length vl] k (?vl, ?pc)"
    using Suc.IH k by simp
  also have "\<dots> = cumulative_step hs avg acc [0..<length ?vl] k (?vl, ?pc)"
    by (simp only: len)
  also have "\<dots> = (?vl[k := stamp acc (?vl ! k)],
                     if a + k = 0 then ?pc else ?pc(a + k \<mapsto> absolute_offset acc (a + k)))"
    using idx _ before miss chain by (rule cumulative_step_stamp) (simp add: k)
  also have "?vl[k := stamp acc (?vl ! k)] = map (stamp acc) (take (Suc k) vl) @ drop (Suc k) vl"
    unfolding same by (rule stamp_prefix_update [OF k])
  also have "(if a + k = 0 then ?pc else ?pc(a + k \<mapsto> absolute_offset acc (a + k))) =
             (\<lambda>j. if a \<le> j \<and> j < a + Suc k \<and> j \<noteq> 0 then Some (absolute_offset acc j) else None)"
    by (rule ext) auto
  finally show ?case .
qed

lemma rebuilt_chain:
  assumes "accumulatedHeights s = accumulatedHeights (updateAccumulatedHeights s)"
    and "j < length (itemHeights s)"
  shows "absolute_offset (accumulatedHeights s) j
           + js_or (height_at (itemHeights s) j) (averageHeight s)
         = absolute_offset (accumulatedHeights s) (Suc j)"
proof -
  let ?acc = "accumulatedHeights (updateAccumulatedHeights s)"
  have cell: "absolute_offset ?acc (Suc i) = ?acc ! i" if "i < length (itemHeights s)" for i
    using that by (simp add: absolute_offset_def array_get_def)
  have "absolute_offset ?acc j + js_or (itemHeights s ! j) (averageHeight s) = ?acc ! j"
  proof (cases j)
    case 0
    with assms(2) show ?thesis
      by (simp add: absolute_offset_def rebuilt_nth take_Suc_conv_app_nth)
  next
    case (Suc i)
    with assms(2) cell [of i] show ?thesis
      by (simp add: rebuilt_nth_Suc)
  qed
  with cell [OF assms(2)] assms show ?thesis
    by (simp add: height_at_def)
qed

lemma map_nth_positions: "map (\<lambda>q. f (vl ! q)) [0..<length vl] = map f vl"
  by (rule nth_equalityI) simp_all

text \<open>
  Claim C10. For a materialized window, that is for items carrying the contiguous indices
  \<open>[a, b)\<close> of a height table with at least \<open>b\<close> cells: if the position cache is empty and
  the cumulative heights are the ones a rebuild from the current height table yields, the
  absolute and the cumulative strategy assign the same \<^verbatim>\<open>translateY\<close> to every item of the
  window, namely the cumulative height of the predecessor (0 for index 0); the windows they
  produce are equal altogether. The equality does not depend on the stored heights being
  at least 1: both strategies read a falsy cell as the average height.
\<close>

theorem position_strategies_agree:
  assumes "positionCache s = Map.empty"
    and "accumulatedHeights s = accumulatedHeights (updateAccumulatedHeights s)"
    and "map index (virtualList s) = [a..<b]"
    and "b \<le> length (itemHeights s)"
  shows "map translateY (virtualList (updateItemPositionsAbsolute s)) =
           map translateY (virtualList (updateItemPositionsCumulative s)) \<and>
         virtualList (updateItemPositionsAbsolute s) =
           virtualList (updateItemPositionsCumulative s) \<and>
         map translateY (virtualList (updateItemPositionsCumulative s)) =
           map (absolute_offset (accumulatedHeights s)) [a..<b]"
proof -
  let ?vl = "virtualList s" and ?acc = "accumulatedHeights s"
  have abs: "virtualList (updateItemPositionsAbsolute s) = map (stamp ?acc) ?vl"
    using absolute_loop_stamps [of Map.empty ?acc ?vl] assms(1)
    by (simp add: updateItemPositionsAbsolute_def case_prod_beta)
  have "sorted (map (\<lambda>q. index (?vl ! q)) [0..<length ?vl])"
    unfolding map_nth_positions assms(3) by simp
  then have order: "sort_key (\<lambda>q. index (?vl ! q)) [0..<length ?vl] = [0..<length ?vl]"
    by (rule sort_key_id_if_sorted)
  have chain: "\<forall>j. Suc j < b \<longrightarrow>
      absolute_offset ?acc j + js_or (height_at (itemHeights s) j) (averageHeight s)
        = absolute_offset ?acc (Suc j)"
    using rebuilt_chain [OF assms(2)] assms(4) by simp
  have "fold (cumulative_step (itemHeights s) (averageHeight s) ?acc [0..<length ?vl])
          [0..<length ?vl] (?vl, Map.empty) =
        (map (stamp ?acc) (take (length ?vl) ?vl) @ drop (length ?vl) ?vl,
         \<lambda>j. if a \<le> j \<and> j < a + length ?vl \<and> j \<noteq> 0
             then Some (absolute_offset ?acc j) else None)"
    using assms(3) chain by (rule cumulative_fold_stamps) simp
  then have cum: "virtualList (updateItemPositionsCumulative s) = map (stamp ?acc) ?vl"
    using assms(1) by (simp add: updateItemPositionsCumulative_def Let_def order)
  have "map translateY (map (stamp ?acc) ?vl) = map (absolute_offset ?acc) (map index ?vl)"
    by (simp add: comp_def)
  with abs cum assms(3) show ?thesis
    by simp
qed

theorem position_strategies_agree_witness:
  "map index (virtualList measured_window) = [1, 2, 3, 4, 5, 6, 7, 8] \<and>
   map translateY (virtualList (updateItemPositionsAbsolute measured_window)) =
     map translateY (virtualList (updateItemPositionsCumulative measured_window))"
proof -
  have cache: "positionCache measured_window = Map.empty"
    by (simp add: measured_window_def)
  have rebuilt: "accumulatedHeights measured_window =
                   accumulatedHeights (updateAccumulatedHeights measured_window)"
    by code_simp
  have win: "map index (virtualList measured_window) = [1..<9]"
    by code_simp
  have inside: "9 \<le> length (itemHeights measured_window)"
    by code_simp
  have "[1..<9] = [1, 2, 3, 4, 5, 6, 7, 8::nat]"
    by code_simp
  with position_strategies_agree [OF cache rebuilt win inside] win show ?thesis
    by simp
qed

section \<open>Cache invalidation after a batch (C3)\<close>

text \<open>
  Claim C3: after a measurement batch has recorded a new height \<open>h\<close> for index \<open>i\<close>, more
  than 1 away from the stored one, a lookup of the height of \<open>i\<close> returns \<open>h\<close> and no cached
  offset of an index \<open>j \<ge> i\<close> computed from the old height survives. The batch path
  \<^verbatim>\<open>measureItemHeights\<close> does not keep the second part. Ten elements of height 100 with the
  window \<open>[0, 5)\<close> have the cached offsets 100, 200, 300, 400 for the indices 1 to 4. When
  the batch reports height 150 for index 1, the height table and the cumulative heights
  follow (250, 350, 450 for the indices 2 to 4), but only the cache entry of index 1 is
  deleted: the entries of the indices 2 to 4 stay 200, 300, 400, and the recomputation of
  the offsets reads them back. \<^verbatim>\<open>updateElementHeight\<close> on the same state and rectangle
  deletes the entries from index 1 on and arrives at 250, 350, 450.
\<close>

theorem batch_measurement_keeps_stale_offsets:
  "map (positionCache ten_items) [1, 2, 3, 4] = [Some 100, Some 200, Some 300, Some 400] \<and>
   height_at (itemHeights ten_items) 1 = Some 100 \<and>
   height_at (itemHeights (measureItemHeights small_props ten_items taller_second)) 1 = Some 150 \<and>
   take 4 (accumulatedHeights (measureItemHeights small_props ten_items taller_second))
     = [100, 250, 350, 450] \<and>
   map (positionCache (measureItemHeights small_props ten_items taller_second)) [1, 2, 3, 4]
     = [Some 100, Some 200, Some 300, Some 400] \<and>
   map translateY (virtualList (measureItemHeights small_props ten_items taller_second))
     = [0, 100, 200, 300, 400] \<and>
   map (positionCache (snd (updateElementHeight small_props ten_items 1 taller_second)))
     [1, 2, 3, 4] = [Some 100, Some 250, Some 350, Some 450] \<and>
   map translateY (virtualList (snd (updateElementHeight small_props ten_items 1 taller_second)))
     = [0, 100, 250, 350, 450]"
  by code_simp

section \<open>The initial sample (C2)\<close>

lemma measurements_Cons:
  "measurements (r # rects) =
     (case measurement r of None \<Rightarrow> measurements rects | Some m \<Rightarrow> m # measurements rects)"
  by (simp add: measurements_def map_filter_simps split: option.splits)

lemma fold_sample_rect:
  "fold sample_rect rects (s, c, t) =
     (fold record_sample (measurements rects) s,
      c + length (measurements rects),
      t + sum_list (map snd (measurements rects)))"
proof (induction rects arbitrary: s c t)
  case Nil
  then show ?case by (simp add: measurements_def map_filter_simps)
next
  case (Cons r rects)
  show ?case
  proof (cases "measurement r")
    case None
    with Cons show ?thesis
      by (simp add: sample_rect_def measurements_Cons)
  next
    case (Some m)
    with Cons [of "record_sample m s" "c + 1" "t + snd m"] show ?thesis
      by (simp add: sample_rect_def measurements_Cons add.assoc)
  qed
qed

lemma height_at_array_set:
  "height_at (array_set xs i v) j = (if j = i then Some v else height_at xs j)"
  by (auto simp: height_at_def array_set_def nth_append nth_Cons')

lemma length_array_set:
  "length (array_set xs i v) = max (length xs) (Suc i)"
  by (simp add: array_set_def)

lemma set_itemHeight_index [simp]: "map index (set_itemHeight i h items) = map index items"
  by (induction items) simp_all

lemma record_sample_fields [simp]:
  "measuredIndices (record_sample m s) = insert (fst m) (measuredIndices s)"
  "averageHeight (record_sample m s) = averageHeight s"
  "copyList (record_sample m s) = copyList s"
  "accumulatedHeights (record_sample m s) = accumulatedHeights s"
  "positionCache (record_sample m s) = (positionCache s)(fst m := None)"
  "itemHeights (record_sample m s) = array_set (itemHeights s) (fst m) (snd m)"
  "map index (virtualList (record_sample m s)) = map index (virtualList s)"
  by (simp_all add: record_sample_def split: prod.splits)

lemma record_fold_fields:
  "measuredIndices (fold record_sample ms s) = measuredIndices s \<union> fst ` set ms"
  "averageHeight (fold record_sample ms s) = averageHeight s"
  "copyList (fold record_sample ms s) = copyList s"
  "accumulatedHeights (fold record_sample ms s) = accumulatedHeights s"
  "map index (virtualList (fold record_sample ms s)) = map index (virtualList s)"
  "positionCache (fold record_sample ms s) j =
     (if j \<in> fst ` set ms then None else positionCache s j)"
  "j \<notin> fst ` set ms \<Longrightarrow>
     height_at (itemHeights (fold record_sample ms s)) j = height_at (itemHeights s) j"
  "length (itemHeights s) \<le> length (itemHeights (fold record_sample ms s))"
proof (induction ms arbitrary: s)
  case Nil
  {
    case 1 show ?case by simp
  next
    case 2 show ?case by simp
  next
    case 3 show ?case by simp
  next
    case 4 show ?case by simp
  next
    case 5 show ?case by simp
  next
    case 6 show ?case by simp
  next
    case 7 show ?case by simp
  next
    case 8 show ?case by simp
  }
next
  case (Cons m ms)
  {
    case 1 show ?case by (simp add: Cons.IH(1))
  next
    case 2 show ?case by (simp add: Cons.IH(2))
  next
    case 3 show ?case by (simp add: Cons.IH(3))
  next
    case 4 show ?case by (simp add: Cons.IH(4))
  next
    case 5 show ?case by (simp add: Cons.IH(5))
  next
    case 6 show ?case by (simp add: Cons.IH(6))
  next
    case 7 then show ?case by (simp add: Cons.IH(7) height_at_array_set)
  next
    case 8
    have "length (itemHeights s) \<le> length (itemHeights (record_sample m s))"
      by (simp add: length_array_set)
    also have "\<dots> \<le> length (itemHeights (fold record_sample ms (record_sample m s)))"
      by (rule Cons.IH(8))
    finally show ?case by simp
  }
qed

lemma estimate_unmeasured_fields [simp]:
  "measuredIndices (estimate_unmeasured m i s) = measuredIndices s"
  "averageHeight (estimate_unmeasured m i s) = averageHeight s"
  "copyList (estimate_unmeasured m i s) = copyList s"
  "accumulatedHeights (estimate_unmeasured m i s) = accumulatedHeights s"
  "map index (virtualList (estimate_unmeasured m i s)) = map index (virtualList s)"
  "height_at (itemHeights (estimate_unmeasured m i s)) j =
     (if j = i \<and> i \<notin> measuredIndices s then Some m else height_at (itemHeights s) j)"
  "positionCache (estimate_unmeasured m i s) j =
     (if j = i \<and> i \<notin> measuredIndices s then None else positionCache s j)"
  "i < length (itemHeights s) \<Longrightarrow>
     length (itemHeights (estimate_unmeasured m i s)) = length (itemHeights s)"
  by (simp_all add: estimate_unmeasured_def height_at_array_set length_array_set max_def)

lemma estimate_fold_fields:
  "measuredIndices (fold (estimate_unmeasured m) ks s) = measuredIndices s"
  "averageHeight (fold (estimate_unmeasured m) ks s) = averageHeight s"
  "copyList (fold (estimate_unmeasured m) ks s) = copyList s"
  "accumulatedHeights (fold (estimate_unmeasured m) ks s) = accumulatedHeights s"
  "map index (virtualList (fold (estimate_unmeasured m) ks s)) = map index (virtualList s)"
  "height_at (itemHeights (fold (estimate_unmeasured m) ks s)) j =
     (if j \<in> set ks \<and> j \<notin> measuredIndices s then Some m else height_at (itemHeights s) j)"
  "positionCache (fold (estimate_unmeasured m) ks s) j =
     (if j \<in> set ks \<and> j \<notin> measuredIndices s then None else positionCache s j)"
  "\<forall>k\<in>set ks. k < length (itemHeights s) \<Longrightarrow>
     length (itemHeights (fold (estimate_unmeasured m) ks s)) = length (itemHeights s)"
proof (induction ks arbitrary: s)
  case Nil
  {
    case 1 show ?case by simp
  next
    case 2 show ?case by simp
  next
    case 3 show ?case by simp
  next
    case 4 show ?case by simp
  next
    case 5 show ?case by simp
  next
    case 6 show ?case by simp
  next
    case 7 show ?case by simp
  next
    case 8 show ?case by simp
  }
next
  case (Cons k ks)
  {
    case 1 show ?case by (simp add: Cons.IH(1))
  next
    case 2 show ?case by (simp add: Cons.IH(2))
  next
    case 3 show ?case by (simp add: Cons.IH(3))
  next
    case 4 show ?case by (simp add: Cons.IH(4))
  next
    case 5 show ?case by (simp add: Cons.IH(5))
  next
    case 6 show ?case by (auto simp: Cons.IH(6))
  next
    case 7 show ?case by (auto simp: Cons.IH(7))
  next
    case 8 then show ?case by (simp add: Cons.IH(8))
  }
qed





lemma apply_initial_average_fields:
  "averageHeight (apply_initial_average p s m) = m"
  "measuredIndices (apply_initial_average p s m) = measuredIndices s"
  "map index (virtualList (apply_initial_average p s m)) = map index (virtualList s)"
  "length (itemHeights (apply_initial_average p s m)) = length (itemHeights s)"
  by (simp_all add: apply_initial_average_def Let_def estimate_fold_fields)



lemma measureInitialSample_unfold:
  assumes "dynamicHeight p" "virtualList s \<noteq> []" "measurements rects \<noteq> []"
  shows "measureInitialSample p s rects =
           updateItemPositions p
             (updateAccumulatedHeights
                (apply_initial_average p (fold record_sample (measurements rects) s)
                   (batch_mean rects)))"
proof -
  from assms(3) have "rects \<noteq> []"
    by (auto simp: measurements_def map_filter_simps)
  with assms show ?thesis
    by (simp add: measureInitialSample_def fold_sample_rect batch_mean_def)
qed





section \<open>Every operation keeps a state consistent\<close>

lemma consistent_rebuilt:
  assumes "map c_index (copyList s) = [0..<length (copyList s)]"
    and "length (copyList s) \<le> length (itemHeights s)"
  shows "consistent (updateItemPositions p (updateAccumulatedHeights s))"
  using assms by (simp add: consistent_def)

lemma consistent_updateVisibleItems:
  "consistent s \<Longrightarrow> consistent (updateVisibleItems p s x)"
  by (auto simp: updateVisibleItems_def consistent_def split: option.splits)

lemma consistent_refreshHeight: "consistent s \<Longrightarrow> consistent (refreshHeight s)"
  by (simp add: refreshHeight_def consistent_def)

lemma consistent_measureInitialSample:
  assumes "consistent s"
  shows "consistent (measureInitialSample p s rects)"
proof (cases "dynamicHeight p \<and> virtualList s \<noteq> [] \<and> measurements rects \<noteq> []")
  case True
  let ?s1 = "fold record_sample (measurements rects) s"
  let ?s2 = "apply_initial_average p ?s1 (batch_mean rects)"
  have copy: "copyList ?s2 = copyList s"
    by (simp add: apply_initial_average_def Let_def estimate_fold_fields record_fold_fields)
  have "length (itemHeights s) \<le> length (itemHeights ?s2)"
    by (simp add: apply_initial_average_fields record_fold_fields)
  with assms copy have "map c_index (copyList ?s2) = [0..<length (copyList ?s2)]"
      "length (copyList ?s2) \<le> length (itemHeights ?s2)"
    by (simp_all add: consistent_def)
  then have "consistent (updateItemPositions p (updateAccumulatedHeights ?s2))"
    by (rule consistent_rebuilt)
  with True show ?thesis
    by (simp add: measureInitialSample_unfold)
next
  case False
  have "fold sample_rect rects (s, 0, 0) = (s, 0, 0)" if "measurements rects = []"
    using that by (simp add: fold_sample_rect)
  with False assms show ?thesis
    by (auto simp: measureInitialSample_def)
qed

lemma measure_rect_fields:
  "copyList (fst (measure_rect r st)) = copyList (fst st)"
  "accumulatedHeights (fst (measure_rect r st)) = accumulatedHeights (fst st)"
  "length (itemHeights (fst st)) \<le> length (itemHeights (fst (measure_rect r st)))"
  by (auto simp: measure_rect_def Let_def length_array_set split: prod.splits option.splits)

lemma measure_fold_fields:
  "copyList (fst (fold measure_rect rects st)) = copyList (fst st)"
  "accumulatedHeights (fst (fold measure_rect rects st)) = accumulatedHeights (fst st)"
  "length (itemHeights (fst st)) \<le> length (itemHeights (fst (fold measure_rect rects st)))"
proof (induction rects arbitrary: st)
  case Nil
  {
    case 1 show ?case by simp
  next
    case 2 show ?case by simp
  next
    case 3 show ?case by simp
  }
next
  case (Cons r rects)
  {
    case 1 show ?case by (simp add: Cons.IH(1) measure_rect_fields)
  next
    case 2 show ?case by (simp add: Cons.IH(2) measure_rect_fields)
  next
    case 3
    have "length (itemHeights (fst st)) \<le> length (itemHeights (fst (measure_rect r st)))"
      by (rule measure_rect_fields)
    also have "\<dots> \<le> length (itemHeights (fst (fold measure_rect rects (measure_rect r st))))"
      by (rule Cons.IH(3))
    finally show ?case by simp
  }
qed

lemma consistent_measureItemHeights:
  assumes "consistent s"
  shows "consistent (measureItemHeights p s rects)"
proof -
  obtain s1 c t h where fold: "fold measure_rect rects (s, 0, 0, False) = (s1, c, t, h)"
    by (metis prod_cases4)
  have s1: "copyList s1 = copyList s" "accumulatedHeights s1 = accumulatedHeights s"
      "length (itemHeights s) \<le> length (itemHeights s1)"
    using measure_fold_fields [where rects = rects and st = "(s, 0, 0, False)"]
    by (simp_all add: fold)
  with assms have c1: "consistent s1"
    by (simp add: consistent_def)
  have c2: "consistent (updateItemPositions p (updateAccumulatedHeights (s1\<lparr>averageHeight := a\<rparr>)))"
    for a
    using c1 by (intro consistent_rebuilt) (simp_all add: consistent_def)
  have c3: "consistent (updateItemPositions p (updateAccumulatedHeights s1))"
    using c1 by (intro consistent_rebuilt) (simp_all add: consistent_def)
  from assms c1 c2 c3 show ?thesis
    by (simp add: measureItemHeights_def fold Let_def)
qed

lemma set_measuredHeight_index [simp]:
  "map c_index (set_measuredHeight i h items) = map c_index items"
  by (induction items) simp_all

lemma set_measuredHeight_length [simp]:
  "length (set_measuredHeight i h items) = length items"
  by (induction items) simp_all

lemma consistent_updateElementHeight:
  assumes "consistent s"
  shows "consistent (snd (updateElementHeight p s i rects))"
proof -
  have "consistent (updateItemPositions p (updateAccumulatedHeights
          (s\<lparr>itemHeights := array_set (itemHeights s) k h,
             virtualList := vl,
             copyList := set_measuredHeight k h (copyList s),
             positionCache := pc\<rparr>)))" for k h vl pc
    using assms
    by (intro consistent_rebuilt) (simp_all add: consistent_def length_array_set le_max_iff_disj)
  with assms show ?thesis
    by (simp add: updateElementHeight_def elementHeightMeasured_def Let_def
          split: option.splits)
qed

end
